theory Spec2Isabelle
  imports Main "HOL-Library.Word"
begin

section \<open>Errors, panics and the provider\<close>

text \<open>
  A Go panic is a value of type \<open>panic\<close>: the two run-time panics the modelled code can
  raise itself (a nil pointer dereference, an index out of range), the explicit
  \<^verbatim>\<open>panic(fmt.Errorf("awaited *ora.bndBin, got %T", bnd))\<close> of \<^verbatim>\<open>Stmt.bind\<close>, the failed
  type assertion \<^verbatim>\<open>.(*bndBin)\<close>, and a panic raised inside a collaborator.
\<close>

datatype panic =
    NilPointerDereference
  | IndexOutOfRange
  | AwaitedBndBin
  | TypeAssertionFailed
  | CollaboratorPanic string

datatype error =
    Er string
  | ErrF string
  | ErrE error
  | ErrR panic
  | MultiErr "error list"

text \<open>Modelled from the spec: \<^verbatim>\<open>er\<close>, \<^verbatim>\<open>errF\<close>, \<^verbatim>\<open>errE\<close> and \<^verbatim>\<open>errR\<close> are called in src/ but
  defined elsewhere. \<^verbatim>\<open>er\<close> and \<^verbatim>\<open>errF\<close> build an error from a message, \<^verbatim>\<open>errE\<close> wraps an
  error it is given, \<^verbatim>\<open>errR\<close> turns a recovered panic value into an error (the spec's
  \<^verbatim>\<open>RecoveredFault\<close>).\<close>

definition er :: "string \<Rightarrow> error" where
  "er msg = Er msg"

definition errF :: "string \<Rightarrow> error" where
  "errF msg = ErrF msg"

definition errE :: "error \<Rightarrow> error" where
  "errE e = ErrE e"

definition errR :: "panic \<Rightarrow> error" where
  "errR v = ErrR v"

text \<open>Modelled from the spec: \<^verbatim>\<open>newMultiErrL\<close> is not in src/. The spec's aggregator
  reduces the collected failures to one value, nil when nothing failed.\<close>

definition newMultiErrL :: "error list \<Rightarrow> error option" where
  "newMultiErrL errs = (if errs = [] then None else Some (MultiErr errs))"

text \<open>The spec's \<^verbatim>\<open>AlreadyClosed\<close> class: the errors \<^verbatim>\<open>checkClosed\<close> builds, however wrapped.\<close>

fun is_closed_error :: "error \<Rightarrow> bool" where
  "is_closed_error (Er msg) =
     (msg = ''Srv is closed.'' \<or> msg = ''Stmt is closed.'' \<or> msg = ''Env is closed.'')"
| "is_closed_error (ErrE e) = is_closed_error e"
| "is_closed_error (ErrF msg) = False"
| "is_closed_error (ErrR v) = False"
| "is_closed_error (MultiErr es) = False"

type_synonym ref = nat
type_synonym handle = nat

datatype nkind =
  KInt64 | KInt32 | KInt16 | KInt8 | KUint64 | KUint32 | KUint16 | KUint8 | KFloat64 | KFloat32

text \<open>The indices of \<^verbatim>\<open>_drv.bndPools\<close> that \<^verbatim>\<open>Stmt.bind\<close> uses; \<open>IdxNum KInt64\<close> is
  \<^verbatim>\<open>bndIdxInt64\<close>, \<open>IdxNumPtr KInt64\<close> is \<^verbatim>\<open>bndIdxInt64Ptr\<close>, \<open>IdxNumSlice KInt64\<close> is
  \<^verbatim>\<open>bndIdxInt64Slice\<close>, and so on.\<close>

datatype bndIdx =
    IdxNum nkind | IdxNumPtr nkind | IdxNumSlice nkind
  | IdxNumString | IdxNumStringSlice
  | IdxTime | IdxTimePtr | IdxTimeSlice
  | IdxDate | IdxDatePtr | IdxDateSlice
  | IdxString | IdxStringPtr | IdxStringSlice
  | IdxBool | IdxBoolPtr | IdxBoolSlice
  | IdxBin | IdxBinSlice
  | IdxLob | IdxLobPtr | IdxLobSlice
  | IdxIntervalYM | IdxIntervalYMSlice
  | IdxIntervalDS | IdxIntervalDSSlice
  | IdxBfile | IdxRset | IdxNil

text \<open>A pointer target the caller owns, or the local \<^verbatim>\<open>lastInsertId\<close> of \<^verbatim>\<open>Stmt.exe\<close>.\<close>

datatype loc = UserLoc nat | LastInsertIdLoc

text \<open>A bind descriptor is an object taken from the pool of its kind; an output
  descriptor holds the location it copies its value back to.\<close>

datatype bnd = Bnd bndIdx "loc option"

text \<open>Go values as far as the modelled code looks into them; floats, times, dates and
  intervals are only passed on and stay opaque.\<close>

datatype sqlt =
    SQLT_CHR | SQLT_INT | SQLT_UIN | SQLT_BDOUBLE | SQLT_BFLOAT | SQLT_VNU
  | SQLT_TIMESTAMP_TZ | SQLT_DAT | SQLT_BIN | SQLT_BLOB | SQLT_CLOB
  | SQLT_INTERVAL_YM | SQLT_INTERVAL_DS | SQLT_FILE

datatype val =
    IntV int | StrV string | BoolV bool | BytesV "nat list" | OpaqueV nat
  | NullV | ListV "val list" | PtrV "loc option" | SqltV sqlt

text \<open>
  Everything outside src/ that the modelled code calls (the OCI library, the bind
  descriptors' own methods, the close of a child node) is a \<open>call\<close> answered by the
  provider. The provider sees the whole history of calls and replies, so the same call
  may be answered differently each time. Every call and its reply is appended to the
  trace of the world.
\<close>

datatype bnd_method = MBind | MBindOra | MBindReader | MBindLob

datatype exec_mode = OCI_DEFAULT | OCI_COMMIT_ON_SUCCESS

datatype attr =
    OCI_ATTR_UB8_ROW_COUNT | OCI_ATTR_PREFETCH_ROWS | OCI_ATTR_PREFETCH_MEMORY
  | OCI_ATTR_USERNAME | OCI_ATTR_PASSWORD | OCI_ATTR_SERVER | OCI_ATTR_DRIVER_NAME
  | OCI_ATTR_DEFAULT_LOBPREFETCH_SIZE | OCI_ATTR_SESSION | OCI_ATTR_STMTCACHESIZE

datatype htype = OCI_HTYPE_SESSION | OCI_HTYPE_SVCCTX

datatype call =
    CBndClose bnd
  | CRsetClose ref
  | CSesClose ref
  | CStmtRelease "handle option"
  | CServerDetach "handle option"
  | COciError ref
  | CBndBind bndIdx bnd_method nat val "val list"
  | CBndNilBind nat sqlt
  | CBndSetPtr nat bnd
  | CStmtExecute "handle option" "handle option" "32 word" exec_mode
  | CAttrGet "handle option" attr
  | CAttrSet "handle option" nat attr
  | CRsetOpen ref "handle option"
  | CAllocHandle ref htype
  | CEnvSetAttr ref htype attr val
  | CSessionBegin ref bool nat

datatype reply =
    Done "error option"
  | Code int
  | Value val
  | CodeValue int val
  | Iterations "32 word" "error option"
  | Fault panic

type_synonym provider = "(call \<times> reply) list \<Rightarrow> call \<Rightarrow> reply"

fun reply_err :: "reply \<Rightarrow> error option" where
  "reply_err (Done eo) = eo"
| "reply_err (Iterations n eo) = eo"
| "reply_err (Code c) = None"
| "reply_err (Value v) = None"
| "reply_err (CodeValue c v) = None"
| "reply_err (Fault v) = None"

fun reply_panic :: "reply \<Rightarrow> panic option" where
  "reply_panic (Fault v) = Some v"
| "reply_panic (Done eo) = None"
| "reply_panic (Iterations n eo) = None"
| "reply_panic (Code c) = None"
| "reply_panic (Value v) = None"
| "reply_panic (CodeValue c v) = None"

fun reply_code :: "reply \<Rightarrow> int" where
  "reply_code (Code c) = c"
| "reply_code (CodeValue c v) = c"
| "reply_code (Done eo) = 0"
| "reply_code (Iterations n eo) = 0"
| "reply_code (Value v) = 0"
| "reply_code (Fault v) = 0"

fun reply_value :: "reply \<Rightarrow> val" where
  "reply_value (Value v) = v"
| "reply_value (CodeValue c v) = v"
| "reply_value (Done eo) = NullV"
| "reply_value (Iterations n eo) = NullV"
| "reply_value (Code c) = NullV"
| "reply_value (Fault v) = NullV"

fun reply_iterations :: "reply \<Rightarrow> 32 word" where
  "reply_iterations (Iterations n eo) = n"
| "reply_iterations (Done eo) = 0"
| "reply_iterations (Code c) = 0"
| "reply_iterations (Value v) = 0"
| "reply_iterations (CodeValue c v) = 0"
| "reply_iterations (Fault v) = 0"

definition OCI_ERROR :: int where "OCI_ERROR = - 1"
definition OCI_NO_DATA :: int where "OCI_NO_DATA = 100"

section \<open>The resource nodes\<close>

datatype byteSliceMode = U8 | Bin

record StmtCfg =
  IsAutoCommitting :: bool
  prefetchRowCount :: nat
  prefetchMemorySize :: nat
  lobBufferSize :: nat
  cfg_stringPtrBufferSize :: nat
  byteSlice :: byteSliceMode
  TrueRune :: nat
  FalseRune :: nat

text \<open>\<^verbatim>\<open>Env\<close> and \<^verbatim>\<open>Ses\<close> are declared outside src/; the records have the fields the
  modelled code reads. \<open>env_handle\<close> is the native handle of the spec's resource node,
  \<open>env_Cfg\<close> the value \<^verbatim>\<open>env.Cfg()\<close> returns, \<open>ses_Cfg\<close> the \<^verbatim>\<open>StmtCfg\<close> part of
  \<^verbatim>\<open>ses.Cfg()\<close>, \<open>openTxs_len\<close> the value of \<^verbatim>\<open>ses.openTxs.len()\<close>.\<close>

record Env =
  env_handle :: "handle option"
  isPkgEnv :: bool
  env_Cfg :: StmtCfg
  openSrvs :: "ref list"

record Srv =
  srv_cfg :: "(string \<times> StmtCfg) option"
  srv_env :: "ref option"
  ocisrv :: "handle option"
  openSess :: "ref list"

record Ses =
  ses_srv :: "ref option"
  ocisvcctx :: "handle option"
  ses_Cfg :: StmtCfg
  openStmts :: "ref list option"
  openTxs_len :: nat

text \<open>A Go slice of bind descriptors: the backing array and the length; every slice of
  \<^verbatim>\<open>Stmt.bind\<close> starts at index 0, so the capacity is the length of the backing array.
  \<open>None\<close> is the nil slice.\<close>

type_synonym slice = "(ref \<times> nat) option"

record Stmt =
  stmt_cfg :: "StmtCfg option"
  stmt_ses :: "ref option"
  ocistmt :: "handle option"
  stmtType :: nat
  sql :: string
  gcts :: "nat list"
  bnds :: slice
  hasPtrBind :: bool
  stringPtrBufferSize :: nat
  openRsets :: "ref list"

datatype binPoolType = PoolBndBin | PoolBndLob | PoolOther

record world =
  envs :: "ref \<Rightarrow> Env"
  srvs :: "ref \<Rightarrow> Srv"
  sess :: "ref \<Rightarrow> Ses"
  stmts :: "ref \<Rightarrow> Stmt"
  arrays :: "ref \<Rightarrow> bnd option list"
  next_array :: ref
  mem :: "loc \<Rightarrow> val"
  binPool :: binPoolType
  srvPool :: "ref list"
  stmtPool :: "ref list"
  rsetPool_next :: ref
  sesPool_next :: ref
  trace :: "(call \<times> reply) list"

text \<open>The result of a Go call: it returns, or it panics; either way it leaves a world.
  The mutexes of the nodes are not part of the world: a world stands for a state in which
  no mutex is held, and a call that would wait for a mutex has no counterpart here.\<close>

datatype 'a outcome = Return world 'a | Panic world panic

fun world_of :: "'a outcome \<Rightarrow> world" where
  "world_of (Return w x) = w"
| "world_of (Panic w v) = w"

fun returned :: "'a outcome \<Rightarrow> 'a option" where
  "returned (Return w x) = Some x"
| "returned (Panic w v) = None"

fun panicked :: "'a outcome \<Rightarrow> panic option" where
  "panicked (Return w x) = None"
| "panicked (Panic w v) = Some v"

definition ask :: "provider \<Rightarrow> world \<Rightarrow> call \<Rightarrow> world \<times> reply" where
  "ask P w c = (let r = P (trace w) c in (w\<lparr>trace := trace w @ [(c, r)]\<rparr>, r))"

definition zero_StmtCfg :: StmtCfg where
  "zero_StmtCfg = \<lparr>IsAutoCommitting = False, prefetchRowCount = 0, prefetchMemorySize = 0,
     lobBufferSize = 0, cfg_stringPtrBufferSize = 0, byteSlice = U8,
     TrueRune = 0, FalseRune = 0\<rparr>"

section \<open>Srv: IsOpen, checkClosed, Close, closeWithRemove, close (src/srv.go)\<close>

text \<open>Modelled from the spec: \<^verbatim>\<open>Env.checkClosed\<close> is not in src/. The spec's \<^verbatim>\<open>isOpen\<close> is
  true iff the native handle is present and treats a nil node as closed.\<close>

definition Env_checkClosed :: "world \<Rightarrow> ref option \<Rightarrow> error option" where
  "Env_checkClosed w env =
     (case env of
        None \<Rightarrow> Some (er ''Env is closed.'')
      | Some e \<Rightarrow>
          (if env_handle (envs w e) = None then Some (er ''Env is closed.'') else None))"

definition Srv_checkClosed :: "world \<Rightarrow> ref option \<Rightarrow> error option" where
  "Srv_checkClosed w srv =
     (case srv of
        None \<Rightarrow> Some (er ''Srv is closed.'')
      | Some r \<Rightarrow>
          (let closed = (ocisrv (srvs w r) = None)
           in if closed then Some (er ''Srv is closed.'')
              else Env_checkClosed w (srv_env (srvs w r))))"

definition Srv_IsOpen :: "world \<Rightarrow> ref option \<Rightarrow> bool outcome" where
  "Srv_IsOpen w srv = Return w (Srv_checkClosed w srv = None)"

text \<open>Modelled from the spec: the \<^verbatim>\<open>closeAll(errs)\<close> of the child lists (\<^verbatim>\<open>sesList\<close>,
  \<^verbatim>\<open>rsetList\<close>) is not in src/. Every child is closed in turn and each child's error is
  collected rather than stopping at the first failure (close protocol, step 2); a fault
  inside a child's close is folded in as a \<^verbatim>\<open>RecoveredFault\<close> and does not abort the rest
  (section 7). The result is the world and the errors collected so far.\<close>

fun closeAll ::
  "(ref \<Rightarrow> call) \<Rightarrow> provider \<Rightarrow> world \<Rightarrow> ref list \<Rightarrow> error list \<Rightarrow> world \<times> error list" where
  "closeAll mk P w [] errs = (w, errs)"
| "closeAll mk P w (c # cs) errs =
     (let (w1, rp) = ask P w (mk c)
      in case reply_panic rp of
           Some v \<Rightarrow> closeAll mk P w1 cs (errs @ [errR v])
         | None \<Rightarrow>
             (case reply_err rp of
                None \<Rightarrow> closeAll mk P w1 cs errs
              | Some e \<Rightarrow> closeAll mk P w1 cs (errs @ [e])))"

definition reply_ociError :: "reply \<Rightarrow> error" where
  "reply_ociError rp = (case reply_err rp of Some e \<Rightarrow> e | None \<Rightarrow> Er [])"

text \<open>The end of both deferred functions: \<^verbatim>\<open>multiErr := newMultiErrL(errs)\<close>, and
  \<^verbatim>\<open>err = errE(*multiErr)\<close> when it is not nil; the body has returned nil.\<close>

definition merged :: "error list \<Rightarrow> error option" where
  "merged errs = (case newMultiErrL errs of None \<Rightarrow> None | Some m \<Rightarrow> Some (errE m))"

text \<open>The deferred function of \<^verbatim>\<open>Srv.close\<close> (srv.go 130-148): \<open>p\<close> is what
  \<^verbatim>\<open>recover()\<close> returns.\<close>

definition Srv_close_deferred ::
  "world \<Rightarrow> ref \<Rightarrow> error list \<Rightarrow> panic option \<Rightarrow> error option outcome" where
  "Srv_close_deferred w r errs p =
     (let errs1 = (case p of Some v \<Rightarrow> errs @ [errR v] | None \<Rightarrow> errs);
          s = (srvs w r)\<lparr>srv_cfg := Some ([], zero_StmtCfg), openSess := [],
                 srv_env := None, ocisrv := None\<rparr>;
          w1 = w\<lparr>srvs := (srvs w)(r := s), srvPool := r # srvPool w\<rparr>
      in Return w1 (merged errs1))"

definition Srv_close :: "provider \<Rightarrow> world \<Rightarrow> ref \<Rightarrow> error option outcome" where
  "Srv_close P w r =
     (case Srv_checkClosed w (Some r) of
        Some err \<Rightarrow> Return w (Some (errE err))
      | None \<Rightarrow>
          (let (w1, errs1) = closeAll CSesClose P w (openSess (srvs w r)) []
           in case srv_env (srvs w1 r) of
                None \<Rightarrow> Srv_close_deferred w1 r errs1 (Some NilPointerDereference)
              | Some e \<Rightarrow>
                  (let (w2, rp) = ask P w1 (CServerDetach (ocisrv (srvs w1 r)))
                   in if reply_code rp = OCI_ERROR
                      then (let (w3, re) = ask P w2 (COciError e)
                            in Srv_close_deferred w3 r
                                 (errs1 @ [errE (reply_ociError re)]) None)
                      else Srv_close_deferred w2 r errs1 None)))"

text \<open>\<^verbatim>\<open>env.openSrvs.remove(srv)\<close> and \<^verbatim>\<open>ses.openStmts.remove(stmt)\<close>: the lists are not in
  src/; the element is taken out of the parent's collection (spec, close protocol 4).\<close>

definition Srv_closeWithRemove :: "provider \<Rightarrow> world \<Rightarrow> ref option \<Rightarrow> error option outcome" where
  "Srv_closeWithRemove P w srv =
     (case srv of
        None \<Rightarrow> Return w None
      | Some r \<Rightarrow>
          (case srv_env (srvs w r) of
             None \<Rightarrow> Return w None
           | Some e \<Rightarrow>
               Srv_close P
                 (w\<lparr>envs := (envs w)(e := (envs w e)\<lparr>openSrvs := removeAll r (openSrvs (envs w e))\<rparr>)\<rparr>)
                 r))"

definition Srv_Close :: "provider \<Rightarrow> world \<Rightarrow> ref option \<Rightarrow> error option outcome" where
  "Srv_Close P w srv = (case srv of None \<Rightarrow> Return w None | Some r \<Rightarrow> Srv_closeWithRemove P w srv)"

section \<open>Stmt: IsOpen, checkClosed, Close, closeWithRemove, close (src/unnamed/part_000)\<close>

text \<open>\<^verbatim>\<open>Stmt.IsOpen\<close> starts with \<^verbatim>\<open>stmt.RLock()\<close>, a method of the embedded
  \<^verbatim>\<open>sync.RWMutex\<close>: on a nil receiver the field selection panics.\<close>

definition Stmt_IsOpen :: "world \<Rightarrow> ref option \<Rightarrow> bool outcome" where
  "Stmt_IsOpen w stmt =
     (case stmt of
        None \<Rightarrow> Panic w NilPointerDereference
      | Some r \<Rightarrow> Return w (ocistmt (stmts w r) \<noteq> None))"

definition Stmt_checkClosed :: "world \<Rightarrow> ref \<Rightarrow> error option" where
  "Stmt_checkClosed w r =
     (if ocistmt (stmts w r) = None then Some (er ''Stmt is closed.'') else None)"

text \<open>The environment \<^verbatim>\<open>stmt.ses.srv.env\<close>; \<open>None\<close> when a pointer on the way is nil.\<close>

definition Stmt_env :: "world \<Rightarrow> ref \<Rightarrow> ref option" where
  "Stmt_env w r =
     (case stmt_ses (stmts w r) of
        None \<Rightarrow> None
      | Some s \<Rightarrow> (case ses_srv (sess w s) of None \<Rightarrow> None | Some v \<Rightarrow> srv_env (srvs w v)))"

definition slice_elems :: "world \<Rightarrow> slice \<Rightarrow> bnd option list" where
  "slice_elems w sl = (case sl of None \<Rightarrow> [] | Some (a, n) \<Rightarrow> take n (arrays w a))"

text \<open>The loop over \<^verbatim>\<open>bnds\<close> in \<^verbatim>\<open>Stmt.close\<close> (part_000 178-186).\<close>

fun close_bnds ::
  "provider \<Rightarrow> world \<Rightarrow> bnd option list \<Rightarrow> error list \<Rightarrow> world \<times> error list \<times> panic option" where
  "close_bnds P w [] errs = (w, errs, None)"
| "close_bnds P w (None # bs) errs = close_bnds P w bs errs"
| "close_bnds P w (Some b # bs) errs =
     (let (w1, rp) = ask P w (CBndClose b)
      in case reply_panic rp of
           Some v \<Rightarrow> (w1, errs, Some v)
         | None \<Rightarrow>
             (case reply_err rp of
                None \<Rightarrow> close_bnds P w1 bs errs
              | Some e \<Rightarrow> close_bnds P w1 bs (errs @ [errE e])))"

text \<open>The deferred function of \<^verbatim>\<open>Stmt.close\<close> (part_000 131-173). It reads
  \<^verbatim>\<open>stmt.ses.srv.env.ocierr\<close>; a panic raised here is not recovered.\<close>

definition Stmt_close_deferred ::
  "provider \<Rightarrow> world \<Rightarrow> ref \<Rightarrow> error list \<Rightarrow> panic option \<Rightarrow> error option outcome" where
  "Stmt_close_deferred P w r errs p =
     (let errs1 = (case p of Some v \<Rightarrow> errs @ [errR v] | None \<Rightarrow> errs)
      in case Stmt_env w r of
           None \<Rightarrow> Panic w NilPointerDereference
         | Some e \<Rightarrow>
             (let (w1, rp) = ask P w (CStmtRelease (ocistmt (stmts w r)));
                  (w2, errs2) =
                    (if reply_code rp = OCI_ERROR
                     then (let (w', re) = ask P w1 (COciError e)
                           in (w', errs1 @ [errE (reply_ociError re)]))
                     else (w1, errs1));
                  s = (stmts w2 r)\<lparr>stmt_cfg := Some zero_StmtCfg, stmt_ses := None,
                         ocistmt := None, stmtType := 0, sql := [], gcts := [], bnds := None,
                         hasPtrBind := False, stringPtrBufferSize := 0, openRsets := []\<rparr>;
                  w3 = w2\<lparr>stmts := (stmts w2)(r := s), stmtPool := r # stmtPool w2\<rparr>
              in Return w3 (merged errs2)))"

definition Stmt_close :: "provider \<Rightarrow> world \<Rightarrow> ref \<Rightarrow> error option outcome" where
  "Stmt_close P w r =
     (case Stmt_checkClosed w r of
        Some err \<Rightarrow> Return w (Some (errE err))
      | None \<Rightarrow>
          (let (w1, errs1, p1) = close_bnds P w (slice_elems w (bnds (stmts w r))) []
           in case p1 of
                Some v \<Rightarrow> Stmt_close_deferred P w1 r errs1 (Some v)
              | None \<Rightarrow>
                  (let (w2, errs2) = closeAll CRsetClose P w1 (openRsets (stmts w1 r)) errs1
                   in Stmt_close_deferred P w2 r errs2 None)))"

text \<open>\<^verbatim>\<open>Stmt.closeWithRemove\<close> (part_000 105-120): \<^verbatim>\<open>ok := stmt.ses == nil\<close>, and
  \<^verbatim>\<open>if !ok { return nil }\<close>. Past that test \<^verbatim>\<open>ses\<close> is nil, and \<^verbatim>\<open>ses.openStmts\<close>
  dereferences it.\<close>

definition Stmt_closeWithRemove :: "provider \<Rightarrow> world \<Rightarrow> ref option \<Rightarrow> error option outcome" where
  "Stmt_closeWithRemove P w stmt =
     (case stmt of
        None \<Rightarrow> Return w None
      | Some r \<Rightarrow>
          (let ok = (stmt_ses (stmts w r) = None);
               ses = stmt_ses (stmts w r)
           in if \<not> ok then Return w None
              else (case ses of
                      None \<Rightarrow> Panic w NilPointerDereference
                    | Some s \<Rightarrow>
                        (case openStmts (sess w s) of
                           None \<Rightarrow> Stmt_close P w r
                         | Some l \<Rightarrow>
                             Stmt_close P
                               (w\<lparr>sess := (sess w)(s := (sess w s)\<lparr>openStmts := Some (removeAll r l)\<rparr>)\<rparr>)
                               r))))"

definition Stmt_Close :: "provider \<Rightarrow> world \<Rightarrow> ref option \<Rightarrow> error option outcome" where
  "Stmt_Close P w stmt = Stmt_closeWithRemove P w stmt"

section \<open>Stmt.Cfg and Stmt.bind (src/unnamed/part_000)\<close>

text \<open>\<^verbatim>\<open>Stmt.Cfg\<close> (part_000 80-93). \<open>None\<close> is the panic of dereferencing a nil
  \<^verbatim>\<open>stmt.ses\<close>, \<^verbatim>\<open>ses.srv\<close> or \<^verbatim>\<open>srv.env\<close>. \<^verbatim>\<open>StmtCfg.IsZero\<close> is not in src/; a
  configuration is unset when it is the zero value (spec: the getter falls back to the
  parent's configuration when the node's own is unset).\<close>

definition Stmt_Cfg :: "world \<Rightarrow> ref \<Rightarrow> StmtCfg option" where
  "Stmt_Cfg w r =
     (let cfg = (case stmt_cfg (stmts w r) of Some c \<Rightarrow> c | None \<Rightarrow> zero_StmtCfg)
      in case stmt_ses (stmts w r) of
           None \<Rightarrow> None
         | Some s \<Rightarrow>
             (case ses_srv (sess w s) of
                None \<Rightarrow> None
              | Some v \<Rightarrow>
                  (case srv_env (srvs w v) of
                     None \<Rightarrow> None
                   | Some e \<Rightarrow>
                       Some (if isPkgEnv (envs w e) then env_Cfg (envs w e)
                             else if cfg = zero_StmtCfg then ses_Cfg (sess w s)
                             else cfg))))"

text \<open>A Go slice value of a parameter: \<open>None\<close> is the nil slice.\<close>

type_synonym gslice = "val list option"

definition glen :: "gslice \<Rightarrow> nat" where
  "glen vs = (case vs of None \<Rightarrow> 0 | Some xs \<Rightarrow> length xs)"

definition gval :: "gslice \<Rightarrow> val" where
  "gval vs = (case vs of None \<Rightarrow> NullV | Some xs \<Rightarrow> ListV xs)"

text \<open>
  The dynamic type of a parameter, one constructor for each group of cases of the type
  switch of \<^verbatim>\<open>Stmt.bind\<close>. \<open>PNum KInt64 v\<close> is an \<^verbatim>\<open>int64\<close>, \<open>POra KInt64 isNull v\<close> an
  \<^verbatim>\<open>ora.Int64{IsNull, Value}\<close>, \<open>PNumPtr KInt64 l\<close> an \<^verbatim>\<open>*int64\<close>, \<open>PNumSlice KInt64 vs\<close> an
  \<^verbatim>\<open>[]int64\<close>, \<open>PNumSlicePtr KInt64 vs\<close> an \<^verbatim>\<open>*[]int64\<close>, \<open>POraSlice KInt64 vs\<close> an
  \<^verbatim>\<open>[]ora.Int64\<close>, \<open>POraSlicePtr KInt64 vs\<close> an \<^verbatim>\<open>*[]ora.Int64\<close>; \<open>PNumSlice KUint8\<close> is
  \<^verbatim>\<open>[]uint8\<close>, that is \<^verbatim>\<open>[]byte\<close>. \<open>PNumString\<close> is \<^verbatim>\<open>Num\<close>, \<open>PTime\<close> is \<^verbatim>\<open>time.Time\<close>,
  \<open>POraTime\<close> is \<^verbatim>\<open>ora.Time\<close>, \<open>PLob c readerIsNil v\<close> is \<^verbatim>\<open>Lob{C, Reader}\<close>, \<open>PBytesSlice\<close> is
  \<^verbatim>\<open>[][]byte\<close>, \<open>PNil\<close> is the nil interface, and \<open>POther b\<close> any type without a case
  (\<open>b\<close>: it is a slice whose element type is an interface).
\<close>

datatype num_param =
    PNum nkind val | POra nkind bool val | PNumPtr nkind "loc option"
  | PNumSlice nkind gslice | PNumSlicePtr nkind gslice
  | POraSlice nkind gslice | POraSlicePtr nkind gslice
  | PNumString val | POraNum bool val | PNumStringSlice gslice | POraNumSlice gslice

datatype time_param =
    PTime val | PTimePtr "loc option" | PTimeSlice gslice
  | POraTime bool val | POraTimePtr "loc option" | POraTimeSlice gslice
  | PDate bool val | PDatePtr "loc option" | PDateSlice gslice | PDateSlicePtr gslice
  | PIntervalYM bool val | PIntervalYMSlice gslice
  | PIntervalDS bool val | PIntervalDSSlice gslice

datatype text_param =
    PString val | PStringPtr "loc option" | POraString bool val
  | PStringSlice gslice | POraStringSlice gslice | PStringSlicePtr gslice | POraStringSlicePtr gslice
  | PBool val | PBoolPtr "loc option" | POraBool bool val | PBoolSlice gslice | POraBoolSlice gslice

datatype bin_param =
    PRaw bool val | PLob bool bool val | PLobPtr "(bool \<times> loc) option"
  | PBytesSlice gslice | PRawSlice gslice | PLobSlice gslice
  | PBfile bool val | PRsetPtr "loc option"
  | PNil | POther bool

text \<open>The four families only group the cases; the type switch is one switch.\<close>

datatype param = Num num_param | Tm time_param | Txt text_param | Bn bin_param

text \<open>What one pass of the loop body of \<^verbatim>\<open>Stmt.bind\<close> ends in: the next parameter, a
  \<^verbatim>\<open>return iterations, err\<close>, or a panic. \<open>Continue\<close> and \<open>ReturnNow\<close> carry the values of
  \<^verbatim>\<open>iterations\<close> and \<^verbatim>\<open>err\<close>.\<close>

datatype step =
    Continue world "32 word" "error option"
  | ReturnNow world "32 word" "error option"
  | Panicked world panic

text \<open>\<^verbatim>\<open>bnds[n] = bnd\<close>, on the backing array \<open>a\<close> of the local slice \<^verbatim>\<open>bnds\<close>.\<close>

definition set_bnd :: "world \<Rightarrow> ref \<Rightarrow> nat \<Rightarrow> bnd \<Rightarrow> world" where
  "set_bnd w a n b = w\<lparr>arrays := (arrays w)(a := (arrays w a)[n := Some b])\<rparr>"

text \<open>\<^verbatim>\<open>err = bnd.bind(...)\<close> and \<^verbatim>\<open>if err != nil { return iterations, err }\<close>.\<close>

definition call_bind :: "provider \<Rightarrow> world \<Rightarrow> 32 word \<Rightarrow> call \<Rightarrow> step" where
  "call_bind P w it c =
     (let (w1, rp) = ask P w c
      in case reply_panic rp of
           Some v \<Rightarrow> Panicked w1 v
         | None \<Rightarrow>
             (case reply_err rp of
                Some e \<Rightarrow> ReturnNow w1 it (Some e)
              | None \<Rightarrow> Continue w1 it None))"

definition scalar_bind ::
  "provider \<Rightarrow> world \<Rightarrow> ref \<Rightarrow> nat \<Rightarrow> 32 word \<Rightarrow> bndIdx \<Rightarrow> bnd_method \<Rightarrow> val \<Rightarrow> val list \<Rightarrow> step" where
  "scalar_bind P w a n it idx m v ex =
     call_bind P (set_bnd w a n (Bnd idx None)) it (CBndBind idx m (Suc n) v ex)"

text \<open>\<^verbatim>\<open>stmt.hasPtrBind = true\<close>, reached when the bind before it did not return.\<close>

definition then_hasPtrBind :: "ref \<Rightarrow> step \<Rightarrow> step" where
  "then_hasPtrBind r st =
     (case st of
        Continue w it e \<Rightarrow>
          Continue (w\<lparr>stmts := (stmts w)(r := (stmts w r)\<lparr>hasPtrBind := True\<rparr>)\<rparr>) it e
      | ReturnNow w it e \<Rightarrow> ReturnNow w it e
      | Panicked w v \<Rightarrow> Panicked w v)"

definition ptr_bind ::
  "provider \<Rightarrow> world \<Rightarrow> ref \<Rightarrow> ref \<Rightarrow> nat \<Rightarrow> 32 word \<Rightarrow> bndIdx \<Rightarrow> loc option \<Rightarrow> val list \<Rightarrow> step" where
  "ptr_bind P w r a n it idx l ex =
     then_hasPtrBind r
       (call_bind P (set_bnd w a n (Bnd idx l)) it (CBndBind idx MBind (Suc n) (PtrV l) ex))"

text \<open>\<^verbatim>\<open>iterations, err = bnd.bind(...)\<close> and \<^verbatim>\<open>if err != nil { return iterations, err }\<close>.
  In the cases of \<^verbatim>\<open>[]float64\<close> and \<^verbatim>\<open>*[]float64\<close> a \<^verbatim>\<open>var err error\<close> shadows the result
  \<^verbatim>\<open>err\<close>, which then keeps its value (\<open>shadow\<close>).\<close>

definition call_slice_bind ::
  "provider \<Rightarrow> world \<Rightarrow> error option \<Rightarrow> bool \<Rightarrow> call \<Rightarrow> step" where
  "call_slice_bind P w err shadow c =
     (let (w1, rp) = ask P w c
      in case reply_panic rp of
           Some v \<Rightarrow> Panicked w1 v
         | None \<Rightarrow>
             (case reply_err rp of
                Some e \<Rightarrow> ReturnNow w1 (reply_iterations rp) (Some e)
              | None \<Rightarrow> Continue w1 (reply_iterations rp) (if shadow then err else None)))"

definition slice_bind ::
  "provider \<Rightarrow> world \<Rightarrow> ref \<Rightarrow> nat \<Rightarrow> error option \<Rightarrow> bndIdx \<Rightarrow> bnd_method \<Rightarrow> gslice \<Rightarrow> bool \<Rightarrow> bool
     \<Rightarrow> step" where
  "slice_bind P w a n err idx m vs assoc shadow =
     call_slice_bind P (set_bnd w a n (Bnd idx None)) err shadow
       (CBndBind idx m (Suc n) (gval vs) [BoolV assoc])"

text \<open>\<^verbatim>\<open>iterations = uint32(len(value))\<close> after the bind of a \<^verbatim>\<open>[]bool\<close> or \<^verbatim>\<open>[]Bool\<close>.\<close>

definition then_iterations :: "nat \<Rightarrow> step \<Rightarrow> step" where
  "then_iterations len st =
     (case st of
        Continue w it e \<Rightarrow> Continue w (of_nat len) e
      | ReturnNow w it e \<Rightarrow> ReturnNow w it e
      | Panicked w v \<Rightarrow> Panicked w v)"

text \<open>\<^verbatim>\<open>Stmt.setNilBind\<close> (part_000 1446-1453): the descriptor is stored in
  \<^verbatim>\<open>stmt.bnds[index]\<close>, the slice of the statement, not the local \<^verbatim>\<open>bnds\<close> of
  \<^verbatim>\<open>Stmt.bind\<close>; the index expression panics when \<^verbatim>\<open>index\<close> is not below its length.\<close>

definition setNilBind :: "provider \<Rightarrow> world \<Rightarrow> ref \<Rightarrow> nat \<Rightarrow> sqlt \<Rightarrow> error option outcome" where
  "setNilBind P w r index t =
     (case bnds (stmts w r) of
        None \<Rightarrow> Panic w IndexOutOfRange
      | Some (sa, sn) \<Rightarrow>
          (if index < sn
           then (let (w1, rp) = ask P (set_bnd w sa index (Bnd IdxNil None))
                                  (CBndNilBind (Suc index) t)
                 in case reply_panic rp of
                      Some v \<Rightarrow> Panic w1 v
                    | None \<Rightarrow> Return w1 (reply_err rp))
           else Panic w IndexOutOfRange))"

text \<open>\<^verbatim>\<open>stmt.setNilBind(n, sqlt)\<close> as a statement: the error it returns is dropped and
  \<^verbatim>\<open>err\<close> keeps its value.\<close>

definition nil_bind_ignored ::
  "provider \<Rightarrow> world \<Rightarrow> ref \<Rightarrow> nat \<Rightarrow> 32 word \<Rightarrow> error option \<Rightarrow> sqlt \<Rightarrow> step" where
  "nil_bind_ignored P w r n it err t =
     (case setNilBind P w r n t of
        Panic w1 v \<Rightarrow> Panicked w1 v
      | Return w1 e \<Rightarrow> Continue w1 it err)"

text \<open>\<^verbatim>\<open>err = stmt.setNilBind(n, sqlt)\<close>, with no test of \<^verbatim>\<open>err\<close> after it.\<close>

definition nil_bind_assigned ::
  "provider \<Rightarrow> world \<Rightarrow> ref \<Rightarrow> nat \<Rightarrow> 32 word \<Rightarrow> sqlt \<Rightarrow> step" where
  "nil_bind_assigned P w r n it t =
     (case setNilBind P w r n t of
        Panic w1 v \<Rightarrow> Panicked w1 v
      | Return w1 e \<Rightarrow> Continue w1 it e)"

definition with_cfg :: "world \<Rightarrow> ref \<Rightarrow> (StmtCfg \<Rightarrow> step) \<Rightarrow> step" where
  "with_cfg w r f =
     (case Stmt_Cfg w r of None \<Rightarrow> Panicked w NilPointerDereference | Some c \<Rightarrow> f c)"

definition invalid_param :: "world \<Rightarrow> 32 word \<Rightarrow> bool \<Rightarrow> step" where
  "invalid_param w it ifaceSlice =
     ReturnNow w it
       (Some (if ifaceSlice then errF ''Invalid bind parameter. ([]interface{}) (%v).''
              else errF ''Invalid bind parameter (%v) (%T:%v).''))"

fun ora_sqlt :: "nkind \<Rightarrow> sqlt" where
  "ora_sqlt KInt64 = SQLT_INT"
| "ora_sqlt KInt32 = SQLT_INT"
| "ora_sqlt KInt16 = SQLT_INT"
| "ora_sqlt KInt8 = SQLT_INT"
| "ora_sqlt KUint64 = SQLT_UIN"
| "ora_sqlt KUint32 = SQLT_UIN"
| "ora_sqlt KUint16 = SQLT_UIN"
| "ora_sqlt KUint8 = SQLT_UIN"
| "ora_sqlt KFloat64 = SQLT_BDOUBLE"
| "ora_sqlt KFloat32 = SQLT_BFLOAT"

definition runes :: "StmtCfg \<Rightarrow> val list" where
  "runes c = [IntV (int (FalseRune c)), IntV (int (TrueRune c))]"

definition lob_sqlt :: "bool \<Rightarrow> sqlt" where
  "lob_sqlt c = (if c then SQLT_CLOB else SQLT_BLOB)"

text \<open>The case \<^verbatim>\<open>[]uint8\<close> (part_000 760-789).\<close>

definition bind_bytes ::
  "provider \<Rightarrow> ref \<Rightarrow> ref \<Rightarrow> bool \<Rightarrow> nat \<Rightarrow> world \<Rightarrow> 32 word \<Rightarrow> error option \<Rightarrow> gslice \<Rightarrow> step" where
  "bind_bytes P r a assoc n w it err vs =
     with_cfg w r (\<lambda>c.
       if byteSlice c = U8
       then slice_bind P w a n err (IdxNumSlice KUint8) MBind vs assoc False
       else (case binPool w of
               PoolBndBin \<Rightarrow> scalar_bind P w a n it IdxBin MBind (gval vs) []
             | PoolBndLob \<Rightarrow>
                 (if vs = None then nil_bind_ignored P w r n it err SQLT_BLOB
                  else (let w1 = set_bnd w a n (Bnd IdxBin None)
                        in with_cfg w1 r (\<lambda>c2.
                             call_bind P w1 it
                               (CBndBind IdxBin MBindReader (Suc n) (gval vs)
                                  [IntV (int (lobBufferSize c2)), SqltV SQLT_BLOB]))))
             | PoolOther \<Rightarrow> Panicked w AwaitedBndBin))"

text \<open>The body of the loop of \<^verbatim>\<open>Stmt.bind\<close>: the type switch (part_000 434-1286), for
  the parameter at index \<open>n\<close>; \<open>a\<close> is the backing array of the local \<^verbatim>\<open>bnds\<close>.\<close>

fun bind_num ::
  "provider \<Rightarrow> ref \<Rightarrow> ref \<Rightarrow> bool \<Rightarrow> nat \<Rightarrow> world \<Rightarrow> 32 word \<Rightarrow> error option \<Rightarrow> num_param \<Rightarrow> step" where
  "bind_num P r a assoc n w it err (PNum k v) = scalar_bind P w a n it (IdxNum k) MBind v []"
| "bind_num P r a assoc n w it err (POra k isNull v) =
     (if isNull then nil_bind_ignored P w r n it err (ora_sqlt k)
      else scalar_bind P w a n it (IdxNum k) MBind v [])"
| "bind_num P r a assoc n w it err (PNumString v) =
     scalar_bind P w a n it IdxNumString MBind v []"
| "bind_num P r a assoc n w it err (POraNum isNull v) =
     (if isNull then nil_bind_ignored P w r n it err SQLT_VNU
      else scalar_bind P w a n it IdxNumString MBind v [])"
| "bind_num P r a assoc n w it err (PNumPtr k l) = ptr_bind P w r a n it (IdxNumPtr k) l []"
| "bind_num P r a assoc n w it err (PNumSlice k vs) =
     (if k = KUint8 then bind_bytes P r a assoc n w it err vs
      else slice_bind P w a n err (IdxNumSlice k) MBind vs assoc (k = KFloat64))"
| "bind_num P r a assoc n w it err (PNumSlicePtr k vs) =
     (if k = KUint8 then invalid_param w it False
      else slice_bind P w a n err (IdxNumSlice k) MBind vs assoc (k = KFloat64))"
| "bind_num P r a assoc n w it err (PNumStringSlice vs) =
     slice_bind P w a n err IdxNumStringSlice MBind vs assoc False"
| "bind_num P r a assoc n w it err (POraSlice k vs) =
     (if k = KInt32 \<or> k = KInt16
      then then_hasPtrBind r (slice_bind P w a n err (IdxNumSlice k) MBindOra vs assoc False)
      else slice_bind P w a n err (IdxNumSlice k) MBindOra vs assoc False)"
| "bind_num P r a assoc n w it err (POraSlicePtr k vs) =
     (if k = KInt64 \<or> k = KInt32 \<or> k = KFloat64 \<or> k = KFloat32
      then then_hasPtrBind r (slice_bind P w a n err (IdxNumSlice k) MBindOra vs assoc False)
      else if k = KInt16 then slice_bind P w a n err (IdxNumSlice k) MBindOra vs assoc False
      else invalid_param w it False)"
| "bind_num P r a assoc n w it err (POraNumSlice vs) =
     slice_bind P w a n err IdxNumStringSlice MBindOra vs assoc False"

fun bind_time ::
  "provider \<Rightarrow> ref \<Rightarrow> ref \<Rightarrow> bool \<Rightarrow> nat \<Rightarrow> world \<Rightarrow> 32 word \<Rightarrow> error option \<Rightarrow> time_param \<Rightarrow> step" where
  "bind_time P r a assoc n w it err (PTime v) = scalar_bind P w a n it IdxTime MBind v []"
| "bind_time P r a assoc n w it err (PTimePtr l) = ptr_bind P w r a n it IdxTimePtr l []"
| "bind_time P r a assoc n w it err (PTimeSlice vs) =
     slice_bind P w a n err IdxTimeSlice MBind vs assoc False"
| "bind_time P r a assoc n w it err (POraTime isNull v) =
     (if isNull then nil_bind_ignored P w r n it err SQLT_TIMESTAMP_TZ
      else scalar_bind P w a n it IdxTime MBind v [])"
| "bind_time P r a assoc n w it err (POraTimePtr l) =
     (case l of
        None \<Rightarrow> Panicked (set_bnd w a n (Bnd IdxTimePtr None)) NilPointerDereference
      | Some x \<Rightarrow> ptr_bind P w r a n it IdxTimePtr (Some x) [])"
| "bind_time P r a assoc n w it err (POraTimeSlice vs) =
     slice_bind P w a n err IdxTimeSlice MBindOra vs assoc False"
| "bind_time P r a assoc n w it err (PDate isNull v) =
     (if isNull then nil_bind_ignored P w r n it err SQLT_DAT
      else scalar_bind P w a n it IdxDate MBind v [])"
| "bind_time P r a assoc n w it err (PDatePtr l) = ptr_bind P w r a n it IdxDatePtr l []"
| "bind_time P r a assoc n w it err (PDateSlice vs) =
     slice_bind P w a n err IdxDateSlice MBindOra vs assoc False"
| "bind_time P r a assoc n w it err (PDateSlicePtr vs) =
     slice_bind P w a n err IdxDateSlice MBindOra vs assoc False"
| "bind_time P r a assoc n w it err (PIntervalYM isNull v) =
     (if isNull then nil_bind_ignored P w r n it err SQLT_INTERVAL_YM
      else scalar_bind P w a n it IdxIntervalYM MBind v [])"
| "bind_time P r a assoc n w it err (PIntervalYMSlice vs) =
     slice_bind P w a n err IdxIntervalYMSlice MBind vs assoc False"
| "bind_time P r a assoc n w it err (PIntervalDS isNull v) =
     (if isNull then nil_bind_ignored P w r n it err SQLT_INTERVAL_DS
      else scalar_bind P w a n it IdxIntervalDS MBind v [])"
| "bind_time P r a assoc n w it err (PIntervalDSSlice vs) =
     slice_bind P w a n err IdxIntervalDSSlice MBind vs assoc False"

fun bind_text ::
  "provider \<Rightarrow> ref \<Rightarrow> ref \<Rightarrow> bool \<Rightarrow> nat \<Rightarrow> world \<Rightarrow> 32 word \<Rightarrow> error option \<Rightarrow> text_param \<Rightarrow> step" where
  "bind_text P r a assoc n w it err (PString v) = scalar_bind P w a n it IdxString MBind v []"
| "bind_text P r a assoc n w it err (PStringPtr l) =
     (let w1 = set_bnd w a n (Bnd IdxStringPtr l);
          spbs = stringPtrBufferSize (stmts w1 r)
      in if spbs = 0
         then with_cfg w1 r (\<lambda>c.
                then_hasPtrBind r
                  (call_bind P w1 it
                     (CBndBind IdxStringPtr MBind (Suc n) (PtrV l)
                        [IntV (int (cfg_stringPtrBufferSize c))])))
         else then_hasPtrBind r
                (call_bind P w1 it
                   (CBndBind IdxStringPtr MBind (Suc n) (PtrV l) [IntV (int spbs)])))"
| "bind_text P r a assoc n w it err (POraString isNull v) =
     (if isNull then nil_bind_ignored P w r n it err SQLT_CHR
      else scalar_bind P w a n it IdxString MBind v [])"
| "bind_text P r a assoc n w it err (PStringSlice vs) =
     slice_bind P w a n err IdxStringSlice MBind vs assoc False"
| "bind_text P r a assoc n w it err (POraStringSlice vs) =
     slice_bind P w a n err IdxStringSlice MBindOra vs assoc False"
| "bind_text P r a assoc n w it err (PStringSlicePtr vs) =
     slice_bind P w a n err IdxStringSlice MBind vs assoc False"
| "bind_text P r a assoc n w it err (POraStringSlicePtr vs) =
     slice_bind P w a n err IdxStringSlice MBindOra vs assoc False"
| "bind_text P r a assoc n w it err (PBool v) =
     (let w1 = set_bnd w a n (Bnd IdxBool None)
      in with_cfg w1 r (\<lambda>c. call_bind P w1 it (CBndBind IdxBool MBind (Suc n) v (runes c))))"
| "bind_text P r a assoc n w it err (PBoolPtr l) =
     (let w1 = set_bnd w a n (Bnd IdxBoolPtr l)
      in with_cfg w1 r (\<lambda>c.
           then_hasPtrBind r
             (call_bind P w1 it
                (CBndBind IdxBoolPtr MBind (Suc n) (PtrV l) [IntV (int (TrueRune c))]))))"
| "bind_text P r a assoc n w it err (POraBool isNull v) =
     (if isNull then nil_bind_ignored P w r n it err SQLT_CHR
      else (let w1 = set_bnd w a n (Bnd IdxBool None)
            in with_cfg w1 r (\<lambda>c.
                 call_bind P w1 it (CBndBind IdxBool MBind (Suc n) v (runes c)))))"
| "bind_text P r a assoc n w it err (PBoolSlice vs) =
     (let w1 = set_bnd w a n (Bnd IdxBoolSlice None)
      in with_cfg w1 r (\<lambda>c.
           then_iterations (glen vs)
             (call_bind P w1 it (CBndBind IdxBoolSlice MBind (Suc n) (gval vs) (runes c)))))"
| "bind_text P r a assoc n w it err (POraBoolSlice vs) =
     (let w1 = set_bnd w a n (Bnd IdxBoolSlice None)
      in with_cfg w1 r (\<lambda>c.
           then_iterations (glen vs)
             (call_bind P w1 it (CBndBind IdxBoolSlice MBindOra (Suc n) (gval vs) (runes c)))))"

fun bind_bin ::
  "provider \<Rightarrow> ref \<Rightarrow> ref \<Rightarrow> bool \<Rightarrow> nat \<Rightarrow> world \<Rightarrow> 32 word \<Rightarrow> error option \<Rightarrow> bin_param \<Rightarrow> step" where
  "bind_bin P r a assoc n w it err (PRaw isNull v) =
     (if isNull then nil_bind_ignored P w r n it err SQLT_BIN
      else if binPool w = PoolBndBin then scalar_bind P w a n it IdxBin MBind v []
      else Panicked w TypeAssertionFailed)"
| "bind_bin P r a assoc n w it err (PLob c readerIsNil v) =
     (if readerIsNil then nil_bind_ignored P w r n it err (lob_sqlt c)
      else (let w1 = set_bnd w a n (Bnd IdxLob None)
            in with_cfg w1 r (\<lambda>cf.
                 call_bind P w1 it
                   (CBndBind IdxLob MBindReader (Suc n) v
                      [IntV (int (lobBufferSize cf)), SqltV (lob_sqlt c)]))))"
| "bind_bin P r a assoc n w it err (PLobPtr lp) =
     (case lp of
        None \<Rightarrow> nil_bind_ignored P w r n it err SQLT_BLOB
      | Some (c, l) \<Rightarrow>
          (let w1 = set_bnd w a n (Bnd IdxLobPtr (Some l))
           in with_cfg w1 r (\<lambda>cf.
                then_hasPtrBind r
                  (call_bind P w1 it
                     (CBndBind IdxLobPtr MBindLob (Suc n) (PtrV (Some l))
                        [IntV (int (lobBufferSize cf)), SqltV (lob_sqlt c)])))))"
| "bind_bin P r a assoc n w it err (PBytesSlice vs) =
     (let w1 = set_bnd w a n (Bnd IdxBinSlice None)
      in with_cfg w1 r (\<lambda>cf.
           call_slice_bind P w1 err False
             (CBndBind IdxBinSlice MBind (Suc n) (gval vs)
                [IntV (int (lobBufferSize cf)), BoolV assoc])))"
| "bind_bin P r a assoc n w it err (PRawSlice vs) =
     (let w1 = set_bnd w a n (Bnd IdxBinSlice None)
      in with_cfg w1 r (\<lambda>cf.
           call_slice_bind P w1 err False
             (CBndBind IdxBinSlice MBindOra (Suc n) (gval vs)
                [IntV (int (lobBufferSize cf)), BoolV assoc])))"
| "bind_bin P r a assoc n w it err (PLobSlice vs) =
     (let w1 = set_bnd w a n (Bnd IdxLobSlice None)
      in with_cfg w1 r (\<lambda>cf.
           call_slice_bind P w1 err False
             (CBndBind IdxLobSlice MBindOra (Suc n) (gval vs)
                [IntV (int (lobBufferSize cf)), BoolV assoc])))"
| "bind_bin P r a assoc n w it err (PBfile isNull v) =
     (if isNull then nil_bind_assigned P w r n it SQLT_FILE
      else scalar_bind P w a n it IdxBfile MBind v [])"
| "bind_bin P r a assoc n w it err (PRsetPtr l) = ptr_bind P w r a n it IdxRset l []"
| "bind_bin P r a assoc n w it err PNil = nil_bind_assigned P w r n it SQLT_CHR"
| "bind_bin P r a assoc n w it err (POther ifaceSlice) = invalid_param w it ifaceSlice"

fun bind_param ::
  "provider \<Rightarrow> ref \<Rightarrow> ref \<Rightarrow> bool \<Rightarrow> nat \<Rightarrow> world \<Rightarrow> 32 word \<Rightarrow> error option \<Rightarrow> param \<Rightarrow> step" where
  "bind_param P r a assoc n w it err (Num p) = bind_num P r a assoc n w it err p"
| "bind_param P r a assoc n w it err (Tm p) = bind_time P r a assoc n w it err p"
| "bind_param P r a assoc n w it err (Txt p) = bind_text P r a assoc n w it err p"
| "bind_param P r a assoc n w it err (Bn p) = bind_bin P r a assoc n w it err p"

text \<open>The loop \<^verbatim>\<open>for n = range params\<close>.\<close>

fun bind_loop ::
  "provider \<Rightarrow> ref \<Rightarrow> ref \<Rightarrow> bool \<Rightarrow> nat \<Rightarrow> param list \<Rightarrow> world \<Rightarrow> 32 word \<Rightarrow> error option \<Rightarrow> step" where
  "bind_loop P r a assoc n [] w it err = Continue w it err"
| "bind_loop P r a assoc n (p # ps) w it err =
     (case bind_param P r a assoc n w it err p of
        Continue w1 it1 err1 \<Rightarrow> bind_loop P r a assoc (Suc n) ps w1 it1 err1
      | ReturnNow w1 it1 err1 \<Rightarrow> ReturnNow w1 it1 err1
      | Panicked w1 v \<Rightarrow> Panicked w1 v)"

definition slice_cap :: "world \<Rightarrow> slice \<Rightarrow> nat" where
  "slice_cap w sl = (case sl of None \<Rightarrow> 0 | Some (a, n) \<Rightarrow> length (arrays w a))"

text \<open>The local \<^verbatim>\<open>bnds\<close> of \<^verbatim>\<open>Stmt.bind\<close> (part_000 424-431): a new array from \<^verbatim>\<open>make\<close>
  when the capacity of \<^verbatim>\<open>stmt.bnds\<close> is too small, else the array of \<^verbatim>\<open>stmt.bnds\<close>.\<close>

definition local_bnds :: "world \<Rightarrow> ref \<Rightarrow> nat \<Rightarrow> world \<times> ref" where
  "local_bnds w r len =
     (if slice_cap w (bnds (stmts w r)) < len
      then (w\<lparr>arrays := (arrays w)(next_array w := replicate len None),
               next_array := Suc (next_array w)\<rparr>, next_array w)
      else (case bnds (stmts w r) of None \<Rightarrow> (w, next_array w) | Some (a, n) \<Rightarrow> (w, a)))"

text \<open>\<^verbatim>\<open>Stmt.bind\<close> (part_000 411-1293): the result is \<^verbatim>\<open>(iterations, err)\<close>.\<close>

definition Stmt_bind ::
  "provider \<Rightarrow> world \<Rightarrow> ref \<Rightarrow> param list \<Rightarrow> bool \<Rightarrow> (32 word \<times> error option) outcome" where
  "Stmt_bind P w r params isAssocArray =
     (if length params = 0 then Return w (1, None)
      else (let (w1, a) = local_bnds w r (length params)
            in case bind_loop P r a isAssocArray 0 params w1 1 None of
                 Continue w2 it err \<Rightarrow>
                   Return (w2\<lparr>stmts := (stmts w2)(r := (stmts w2 r)\<lparr>bnds := Some (a, length params)\<rparr>)\<rparr>)
                     (it, err)
               | ReturnNow w2 it err \<Rightarrow> Return w2 (it, err)
               | Panicked w2 v \<Rightarrow> Panic w2 v))"

section \<open>Stmt.exe, Stmt.qry and Srv.OpenSes\<close>

subsection \<open>The string functions of the Go library that Stmt.exe calls\<close>

text \<open>Strings are byte strings. \<^verbatim>\<open>strings.ToUpper\<close> is modelled on ASCII text, where it
  maps \<^verbatim>\<open>a\<close>..\<^verbatim>\<open>z\<close> to \<^verbatim>\<open>A\<close>..\<^verbatim>\<open>Z\<close> and nothing else. On text with a byte above 127 the
  library works on runes and can produce other letters (it maps U+0131 to \<^verbatim>\<open>I\<close>), which
  \<open>strings_ToUpper\<close> does not follow: what is stated about the test of lines 234-239 is
  stated under the hypothesis \<open>ascii\<close>.\<close>

definition ascii :: "string \<Rightarrow> bool" where
  "ascii s = list_all (\<lambda>c. (of_char c :: nat) < 128) s"

definition upper_char :: "char \<Rightarrow> char" where
  "upper_char c =
     (if (97::nat) \<le> of_char c \<and> (of_char c :: nat) \<le> 122
      then char_of ((of_char c :: nat) - 32) else c)"

definition strings_ToUpper :: "string \<Rightarrow> string" where
  "strings_ToUpper s = map upper_char s"

fun last_index_from :: "string \<Rightarrow> string \<Rightarrow> nat \<Rightarrow> int \<Rightarrow> int" where
  "last_index_from sep [] i found = (if sep = [] then int i else found)"
| "last_index_from sep (c # cs) i found =
     last_index_from sep cs (Suc i)
       (if take (length sep) (c # cs) = sep then int i else found)"

text \<open>\<^verbatim>\<open>strings.LastIndex\<close>: the index of the last occurrence, or -1.\<close>

definition strings_LastIndex :: "string \<Rightarrow> string \<Rightarrow> int" where
  "strings_LastIndex s sep = last_index_from sep s 0 (- 1)"

fun strings_Contains :: "string \<Rightarrow> string \<Rightarrow> bool" where
  "strings_Contains [] sub = (sub = [])"
| "strings_Contains (c # cs) sub =
     (take (length sub) (c # cs) = sub \<or> strings_Contains cs sub)"

text \<open>\<^verbatim>\<open>spcRpl = strings.NewReplacer("\t", " ", "   ", " ", "  ", " ")\<close>: at each position
  the first of the three old strings that matches is replaced, without rescanning.\<close>

fun spcRpl_Replace :: "string \<Rightarrow> string" where
  "spcRpl_Replace [] = []"
| "spcRpl_Replace (c # cs) =
     (if c = CHR 0x09 then CHR '' '' # spcRpl_Replace cs
      else if take 3 (c # cs) = ''   '' then CHR '' '' # spcRpl_Replace (drop 2 cs)
      else if take 2 (c # cs) = ''  '' then CHR '' '' # spcRpl_Replace (drop 1 cs)
      else c # spcRpl_Replace cs)"

subsection \<open>Stmt.exe (part_000 216-303)\<close>

definition OCI_STMT_SELECT :: nat where "OCI_STMT_SELECT = 1"
definition OCI_STMT_UPDATE :: nat where "OCI_STMT_UPDATE = 2"
definition OCI_STMT_DELETE :: nat where "OCI_STMT_DELETE = 3"
definition OCI_STMT_INSERT :: nat where "OCI_STMT_INSERT = 4"

text \<open>The test of lines 235-239 on the statement text.\<close>

definition lastInsertId_clause :: "string \<Rightarrow> bool" where
  "lastInsertId_clause txt =
     (let lastIndex = strings_LastIndex txt '')'';
          sqlEnd = strings_ToUpper (spcRpl_Replace (drop (nat (lastIndex + 1)) txt));
          i = strings_LastIndex sqlEnd ''RETURNING''
      in 0 \<le> i \<and> strings_Contains (drop (nat i) sqlEnd) '' /*LASTINSERTID*/ INTO '')"

text \<open>Lines 231-242: the parameters that \<^verbatim>\<open>Stmt.exe\<close> binds. \<^verbatim>\<open>params[len(params)-1]\<close>
  panics on an empty list.\<close>

definition exe_params :: "world \<Rightarrow> ref \<Rightarrow> param list \<Rightarrow> param list outcome" where
  "exe_params w r params =
     (case Stmt_env w r of
        None \<Rightarrow> Panic w NilPointerDereference
      | Some e \<Rightarrow>
          (let pkgEnvInsert = (isPkgEnv (envs w e) \<and> stmtType (stmts w r) = OCI_STMT_INSERT)
           in if pkgEnvInsert \<and> lastInsertId_clause (sql (stmts w r))
              then (if params = [] then Panic w IndexOutOfRange
                    else Return w (params[length params - 1 :=
                                     Num (PNumPtr KInt64 (Some LastInsertIdLoc))]))
              else Return w params))"

text \<open>\<^verbatim>\<open>Stmt.setAttr\<close> (part_000 1427-1443) and \<^verbatim>\<open>Stmt.setPrefetchSize\<close> (1387-1403).\<close>

definition Stmt_setAttr ::
  "provider \<Rightarrow> world \<Rightarrow> ref \<Rightarrow> nat \<Rightarrow> attr \<Rightarrow> error option outcome" where
  "Stmt_setAttr P w r v at =
     (case Stmt_env w r of
        None \<Rightarrow> Panic w NilPointerDereference
      | Some e \<Rightarrow>
          (let (w1, rp) = ask P w (CAttrSet (ocistmt (stmts w r)) v at)
           in if reply_code rp = OCI_ERROR
              then (let (w2, re) = ask P w1 (COciError e)
                    in Return w2 (Some (errE (reply_ociError re))))
              else Return w1 None))"

definition Stmt_setPrefetchSize :: "provider \<Rightarrow> world \<Rightarrow> ref \<Rightarrow> error option outcome" where
  "Stmt_setPrefetchSize P w r =
     (case Stmt_Cfg w r of
        None \<Rightarrow> Panic w NilPointerDereference
      | Some cfg \<Rightarrow>
          (if 0 < prefetchRowCount cfg
           then (case Stmt_setAttr P w r (prefetchRowCount cfg) OCI_ATTR_PREFETCH_ROWS of
                   Return w1 (Some err) \<Rightarrow> Return w1 (Some (errE err))
                 | Return w1 None \<Rightarrow> Return w1 None
                 | Panic w1 v \<Rightarrow> Panic w1 v)
           else if 0 < prefetchMemorySize cfg
           then (case Stmt_setAttr P w r (prefetchMemorySize cfg) OCI_ATTR_PREFETCH_MEMORY of
                   Return w1 (Some err) \<Rightarrow> Return w1 (Some (errE err))
                 | Return w1 None \<Rightarrow> Return w1 None
                 | Panic w1 v \<Rightarrow> Panic w1 v)
           else Return w None))"

text \<open>\<^verbatim>\<open>Stmt.attr\<close> (part_000 1406-1424): the error, or the value read.\<close>

definition Stmt_attr :: "provider \<Rightarrow> world \<Rightarrow> ref \<Rightarrow> attr \<Rightarrow> (error + val) outcome" where
  "Stmt_attr P w r at =
     (case Stmt_env w r of
        None \<Rightarrow> Panic w NilPointerDereference
      | Some e \<Rightarrow>
          (let (w1, rp) = ask P w (CAttrGet (ocistmt (stmts w r)) at)
           in if reply_code rp = OCI_ERROR
              then (let (w2, re) = ask P w1 (COciError e)
                    in Return w2 (Inl (reply_ociError re)))
              else Return w1 (Inr (reply_value rp))))"

text \<open>Lines 251-261: the execute mode. \<open>None\<close> is the panic of \<^verbatim>\<open>stmt.Cfg()\<close> or of
  \<^verbatim>\<open>stmt.ses.openTxs\<close> on a nil pointer.\<close>

definition exe_mode :: "world \<Rightarrow> ref \<Rightarrow> exec_mode option" where
  "exe_mode w r =
     (case Stmt_Cfg w r of
        None \<Rightarrow> None
      | Some cfg \<Rightarrow>
          (if IsAutoCommitting cfg
           then (case stmt_ses (stmts w r) of
                   None \<Rightarrow> None
                 | Some s \<Rightarrow>
                     (let n = openTxs_len (sess w s)
                      in if n = 0 then Some OCI_COMMIT_ON_SUCCESS else Some OCI_DEFAULT))
           else Some OCI_DEFAULT))"

text \<open>Modelled from the spec: the \<^verbatim>\<open>setPtr\<close> of the bind descriptors is not in src/. A
  descriptor that owns an output location copies the value the provider reports for it
  back into that location.\<close>

definition copy_back :: "world \<Rightarrow> bnd \<Rightarrow> val \<Rightarrow> world" where
  "copy_back w b v =
     (case b of Bnd idx l \<Rightarrow> (case l of None \<Rightarrow> w | Some x \<Rightarrow> w\<lparr>mem := (mem w)(x := v)\<rparr>))"

text \<open>\<^verbatim>\<open>Stmt.setBindPtrs\<close> (part_000 377-388): \<^verbatim>\<open>bind.setPtr()\<close> is called on every
  element of \<^verbatim>\<open>stmt.bnds\<close>, a nil element included, which panics.\<close>

fun setPtrs_loop ::
  "provider \<Rightarrow> world \<Rightarrow> nat \<Rightarrow> bnd option list \<Rightarrow> error option outcome" where
  "setPtrs_loop P w n [] = Return w None"
| "setPtrs_loop P w n (None # bs) = Panic w NilPointerDereference"
| "setPtrs_loop P w n (Some b # bs) =
     (let (w1, rp) = ask P w (CBndSetPtr n b)
      in case reply_panic rp of
           Some v \<Rightarrow> Panic w1 v
         | None \<Rightarrow>
             (case reply_err rp of
                Some e \<Rightarrow> Return w1 (Some (errE e))
              | None \<Rightarrow> setPtrs_loop P (copy_back w1 b (reply_value rp)) (Suc n) bs))"

definition Stmt_setBindPtrs :: "provider \<Rightarrow> world \<Rightarrow> ref \<Rightarrow> error option outcome" where
  "Stmt_setBindPtrs P w r = setPtrs_loop P w 0 (slice_elems w (bnds (stmts w r)))"

fun val_nat :: "val \<Rightarrow> nat" where
  "val_nat (IntV i) = nat i"
| "val_nat v = 0"

text \<open>The result of \<^verbatim>\<open>Stmt.exe\<close>: \<^verbatim>\<open>(rowsAffected, lastInsertId, err)\<close>.\<close>

type_synonym exe_result = "nat \<times> val \<times> error option"

text \<open>The body of \<^verbatim>\<open>Stmt.exe\<close> from line 226 up to the switch on the statement type:
  an early \<^verbatim>\<open>return\<close> (\<open>Inl\<close>), or \<^verbatim>\<open>rowsAffected\<close> and \<^verbatim>\<open>hasPtrBind\<close> (\<open>Inr\<close>).\<close>

definition exe_executed ::
  "provider \<Rightarrow> world \<Rightarrow> ref \<Rightarrow> 32 word \<Rightarrow> (exe_result + nat \<times> bool) outcome" where
  "exe_executed P w r iterations =
     (case exe_mode w r of
        None \<Rightarrow> Panic w NilPointerDereference
      | Some mode \<Rightarrow>
          (case stmt_ses (stmts w r) of
             None \<Rightarrow> Panic w NilPointerDereference
           | Some s \<Rightarrow>
               (case Stmt_env w r of
                  None \<Rightarrow> Panic w NilPointerDereference
                | Some e \<Rightarrow>
                    (let (w1, rp) = ask P w (CStmtExecute (ocisvcctx (sess w s))
                                               (ocistmt (stmts w r)) iterations mode);
                         st = stmtType (stmts w1 r);
                         hp = hasPtrBind (stmts w1 r)
                     in if reply_code rp = OCI_ERROR
                        then (let (w2, re) = ask P w1 (COciError e)
                              in Return w2 (Inl (0, IntV 0, Some (errE (reply_ociError re)))))
                        else if st = OCI_STMT_SELECT \<or> st = OCI_STMT_UPDATE
                                \<or> st = OCI_STMT_DELETE \<or> st = OCI_STMT_INSERT
                        then (case Stmt_attr P w1 r OCI_ATTR_UB8_ROW_COUNT of
                                Panic w2 v \<Rightarrow> Panic w2 v
                              | Return w2 (Inl err) \<Rightarrow> Return w2 (Inl (0, IntV 0, Some (errE err)))
                              | Return w2 (Inr ra) \<Rightarrow> Return w2 (Inr (val_nat ra, hp)))
                        else if reply_code rp = OCI_NO_DATA
                        then (let (w2, re) = ask P w1 (COciError e)
                              in Return w2 (Inl (0, IntV 0, Some (errE (reply_ociError re)))))
                        else Return w1 (Inr (0, hp))))))"

definition exe_upto_rows ::
  "provider \<Rightarrow> world \<Rightarrow> ref \<Rightarrow> param list \<Rightarrow> bool \<Rightarrow> (exe_result + nat \<times> bool) outcome" where
  "exe_upto_rows P w r params isAssocArray =
     (case Stmt_checkClosed w r of
        Some err \<Rightarrow> Return w (Inl (0, IntV 0, Some (errE err)))
      | None \<Rightarrow>
          (case exe_params w r params of
             Panic w1 v \<Rightarrow> Panic w1 v
           | Return w1 params1 \<Rightarrow>
               (case Stmt_bind P w1 r params1 isAssocArray of
                  Panic w2 v \<Rightarrow> Panic w2 v
                | Return w2 (iterations, Some err) \<Rightarrow>
                    Return w2 (Inl (0, IntV 0, Some (errE err)))
                | Return w2 (iterations, None) \<Rightarrow>
                    (case Stmt_setPrefetchSize P w2 r of
                       Panic w3 v \<Rightarrow> Panic w3 v
                     | Return w3 (Some err) \<Rightarrow> Return w3 (Inl (0, IntV 0, Some (errE err)))
                     | Return w3 None \<Rightarrow> exe_executed P w3 r iterations))))"

text \<open>\<^verbatim>\<open>Stmt.exe\<close>: the nil test, the deferred \<^verbatim>\<open>recover\<close>, which sets \<^verbatim>\<open>err = errR(value)\<close>
  and leaves the other two results as they are, and the end of the body (lines 296-302).
  \<^verbatim>\<open>lastInsertId\<close> is a local variable, zero at first.\<close>

definition Stmt_exe ::
  "provider \<Rightarrow> world \<Rightarrow> ref option \<Rightarrow> param list \<Rightarrow> bool \<Rightarrow> exe_result outcome" where
  "Stmt_exe P w stmt params isAssocArray =
     (case stmt of
        None \<Rightarrow> Return w (0, IntV 0, Some (er ''stmt may not be nil.''))
      | Some r \<Rightarrow>
          (case exe_upto_rows P (w\<lparr>mem := (mem w)(LastInsertIdLoc := IntV 0)\<rparr>) r params
                  isAssocArray of
             Panic w1 v \<Rightarrow> Return w1 (0, mem w1 LastInsertIdLoc, Some (errR v))
           | Return w1 (Inl res) \<Rightarrow> Return w1 res
           | Return w1 (Inr (rowsAffected, hp)) \<Rightarrow>
               (if hp
                then (case Stmt_setBindPtrs P w1 r of
                        Panic w2 v \<Rightarrow>
                          Return w2 (rowsAffected, mem w2 LastInsertIdLoc, Some (errR v))
                      | Return w2 (Some err) \<Rightarrow>
                          Return w2 (rowsAffected, mem w2 LastInsertIdLoc, Some (errE err))
                      | Return w2 None \<Rightarrow>
                          Return w2 (rowsAffected, mem w2 LastInsertIdLoc, None))
                else Return w1 (rowsAffected, mem w1 LastInsertIdLoc, None))))"

text \<open>\<^verbatim>\<open>Stmt.Exe\<close> and \<^verbatim>\<open>Stmt.ExeP\<close> (part_000 199-211) drop \<^verbatim>\<open>lastInsertId\<close>.\<close>

definition drop_lastInsertId :: "exe_result outcome \<Rightarrow> (nat \<times> error option) outcome" where
  "drop_lastInsertId x =
     (case x of
        Return w (rowsAffected, lastInsertId, err) \<Rightarrow> Return w (rowsAffected, err)
      | Panic w v \<Rightarrow> Panic w v)"

definition Stmt_Exe ::
  "provider \<Rightarrow> world \<Rightarrow> ref option \<Rightarrow> param list \<Rightarrow> (nat \<times> error option) outcome" where
  "Stmt_Exe P w stmt params = drop_lastInsertId (Stmt_exe P w stmt params False)"

definition Stmt_ExeP ::
  "provider \<Rightarrow> world \<Rightarrow> ref option \<Rightarrow> param list \<Rightarrow> (nat \<times> error option) outcome" where
  "Stmt_ExeP P w stmt params = drop_lastInsertId (Stmt_exe P w stmt params True)"

subsection \<open>Stmt.qry (part_000 311-374)\<close>

text \<open>The body of \<^verbatim>\<open>Stmt.qry\<close> up to the creation of the result set: an early
  \<^verbatim>\<open>return nil, err\<close> (\<open>Some err\<close>), or the executed statement (\<open>None\<close>). On a nil
  receiver \<^verbatim>\<open>checkClosed\<close> panics in \<^verbatim>\<open>stmt.RLock()\<close>.\<close>

definition qry_executed ::
  "provider \<Rightarrow> world \<Rightarrow> ref option \<Rightarrow> param list \<Rightarrow> error option outcome" where
  "qry_executed P w stmt params =
     (case stmt of
        None \<Rightarrow> Panic w NilPointerDereference
      | Some r \<Rightarrow>
          (case Stmt_checkClosed w r of
             Some err \<Rightarrow> Return w (Some (errE err))
           | None \<Rightarrow>
               (case Stmt_bind P w r params False of
                  Panic w1 v \<Rightarrow> Panic w1 v
                | Return w1 (iterations, Some err) \<Rightarrow> Return w1 (Some (errE err))
                | Return w1 (iterations, None) \<Rightarrow>
                    (case Stmt_setPrefetchSize P w1 r of
                       Panic w2 v \<Rightarrow> Panic w2 v
                     | Return w2 (Some err) \<Rightarrow> Return w2 (Some (errE err))
                     | Return w2 None \<Rightarrow>
                         (case stmt_ses (stmts w2 r) of
                            None \<Rightarrow> Panic w2 NilPointerDereference
                          | Some s \<Rightarrow>
                              (case Stmt_env w2 r of
                                 None \<Rightarrow> Panic w2 NilPointerDereference
                               | Some e \<Rightarrow>
                                   (let (w3, rp) = ask P w2 (CStmtExecute (ocisvcctx (sess w2 s))
                                                     (ocistmt (stmts w2 r)) 0 OCI_DEFAULT);
                                        hp = hasPtrBind (stmts w3 r)
                                    in if reply_code rp = OCI_ERROR
                                       then (let (w4, re) = ask P w3 (COciError e)
                                             in Return w4 (Some (errE (reply_ociError re))))
                                       else if hp
                                       then (case Stmt_setBindPtrs P w3 r of
                                               Panic w4 v \<Rightarrow> Panic w4 v
                                             | Return w4 (Some err) \<Rightarrow> Return w4 (Some (errE err))
                                             | Return w4 None \<Rightarrow> Return w4 None)
                                       else Return w3 None)))))))"

text \<open>\<^verbatim>\<open>Stmt.qry\<close>: the deferred \<^verbatim>\<open>recover\<close> around the body, with the result set taken
  from its pool, opened (\<^verbatim>\<open>Rset.open\<close> and \<^verbatim>\<open>Rset.close\<close> are not in src/; they are calls
  to the provider) and added to \<^verbatim>\<open>stmt.openRsets\<close>. The result is \<^verbatim>\<open>(rset, err)\<close>.\<close>

definition Stmt_qry ::
  "provider \<Rightarrow> world \<Rightarrow> ref option \<Rightarrow> param list \<Rightarrow> (ref option \<times> error option) outcome" where
  "Stmt_qry P w stmt params =
     (case qry_executed P w stmt params of
        Panic w1 v \<Rightarrow> Return w1 (None, Some (errR v))
      | Return w1 (Some err) \<Rightarrow> Return w1 (None, Some err)
      | Return w1 None \<Rightarrow>
          (case stmt of
             None \<Rightarrow> Return w1 (None, Some (errR NilPointerDereference))
           | Some r \<Rightarrow>
               (let x = rsetPool_next w1;
                    w2 = w1\<lparr>rsetPool_next := Suc x\<rparr>;
                    (w3, rp) = ask P w2 (CRsetOpen x (ocistmt (stmts w2 r)))
                in case reply_panic rp of
                     Some v \<Rightarrow> Return w3 (Some x, Some (errR v))
                   | None \<Rightarrow>
                       (case reply_err rp of
                          Some err \<Rightarrow>
                            (let (w4, rc) = ask P w3 (CRsetClose x)
                             in case reply_panic rc of
                                  Some v \<Rightarrow> Return w4 (Some x, Some (errR v))
                                | None \<Rightarrow> Return w4 (None, Some (errE err)))
                        | None \<Rightarrow>
                            Return (w3\<lparr>stmts := (stmts w3)(r := (stmts w3 r)
                                       \<lparr>openRsets := openRsets (stmts w3 r) @ [x]\<rparr>)\<rparr>)
                              (Some x, None)))))"

definition Stmt_Qry ::
  "provider \<Rightarrow> world \<Rightarrow> ref option \<Rightarrow> param list \<Rightarrow> (ref option \<times> error option) outcome" where
  "Stmt_Qry P w stmt params = Stmt_qry P w stmt params"

subsection \<open>Srv.OpenSes (src/srv.go 168-284)\<close>

datatype SesMode = SysDefault | SysDba | SysOper

text \<open>\<^verbatim>\<open>SesCfg\<close> is declared outside src/; the record has the fields \<^verbatim>\<open>Srv.OpenSes\<close> reads.
  \<^verbatim>\<open>SesCfg.IsZero\<close> is not in src/ either: a configuration is zero when it is the zero
  value.\<close>

record SesCfg =
  Username :: string
  Password :: string
  Mode :: SesMode
  ses_StmtCfg :: StmtCfg

definition zero_SesCfg :: SesCfg where
  "zero_SesCfg = \<lparr>Username = [], Password = [], Mode = SysDefault, ses_StmtCfg = zero_StmtCfg\<rparr>"

text \<open>A step of \<^verbatim>\<open>Srv.OpenSes\<close> that calls a method of \<^verbatim>\<open>srv.env\<close> (\<^verbatim>\<open>allocOciHandle\<close>,
  \<^verbatim>\<open>setAttr\<close>, none of them in src/) and returns \<^verbatim>\<open>nil, errE(err)\<close> when it fails.\<close>

definition env_step ::
  "provider \<Rightarrow> world \<Rightarrow> call \<Rightarrow> (world \<Rightarrow> val \<Rightarrow> (ref option \<times> error option) outcome)
     \<Rightarrow> (ref option \<times> error option) outcome" where
  "env_step P w c k =
     (let (w1, rp) = ask P w c
      in case reply_panic rp of
           Some v \<Rightarrow> Panic w1 v
         | None \<Rightarrow>
             (case reply_err rp of
                Some err \<Rightarrow> Return w1 (None, Some (errE err))
              | None \<Rightarrow> k w1 (reply_value rp)))"

definition mode_flag :: "SesMode \<Rightarrow> nat" where
  "mode_flag m = (case m of SysDefault \<Rightarrow> 0 | SysDba \<Rightarrow> 2 | SysOper \<Rightarrow> 4)"

text \<open>Lines 190-207: the user name and the password are set when one of them is given.\<close>

definition OpenSes_credentials ::
  "provider \<Rightarrow> world \<Rightarrow> ref \<Rightarrow> SesCfg
     \<Rightarrow> (world \<Rightarrow> (ref option \<times> error option) outcome)
     \<Rightarrow> (ref option \<times> error option) outcome" where
  "OpenSes_credentials P w e cfg k =
     (if Username cfg \<noteq> [] \<or> Password cfg \<noteq> []
      then env_step P w
             (CEnvSetAttr e OCI_HTYPE_SESSION OCI_ATTR_USERNAME (StrV (Username cfg)))
             (\<lambda>w2 u. env_step P w2
                (CEnvSetAttr e OCI_HTYPE_SESSION OCI_ATTR_PASSWORD (StrV (Password cfg)))
                (\<lambda>w3 u. k w3))
      else k w)"

text \<open>Lines 271-283: the \<^verbatim>\<open>Ses\<close> is taken from its pool, filled in and added to
  \<^verbatim>\<open>srv.openSess\<close>.\<close>

definition OpenSes_finish ::
  "world \<Rightarrow> ref \<Rightarrow> SesCfg \<Rightarrow> val \<Rightarrow> (ref option \<times> error option) outcome" where
  "OpenSes_finish w r cfg ocisvc =
     (let x = sesPool_next w;
          ses = (sess w x)\<lparr>ses_srv := Some r, ocisvcctx := Some (val_nat ocisvc),
                  ses_Cfg := ses_StmtCfg cfg\<rparr>
      in Return (w\<lparr>sesPool_next := Suc x,
                    sess := (sess w)(x := ses),
                    srvs := (srvs w)(r := (srvs w r)\<lparr>openSess := openSess (srvs w r) @ [x]\<rparr>)\<rparr>)
           (Some x, None))"

text \<open>Lines 239-270: \<^verbatim>\<open>OCISessionBegin\<close> and the two attributes set after it.\<close>

definition OpenSes_begin ::
  "provider \<Rightarrow> world \<Rightarrow> ref \<Rightarrow> ref \<Rightarrow> SesCfg \<Rightarrow> val \<Rightarrow> val
     \<Rightarrow> (ref option \<times> error option) outcome" where
  "OpenSes_begin P w e r cfg ocises ocisvc =
     (let (w1, rp) = ask P w
            (CSessionBegin e (Username cfg \<noteq> [] \<or> Password cfg \<noteq> []) (mode_flag (Mode cfg)))
      in if reply_code rp = OCI_ERROR
         then (let (w2, re) = ask P w1 (COciError e)
               in Return w2 (None, Some (errE (reply_ociError re))))
         else env_step P w1 (CEnvSetAttr e OCI_HTYPE_SVCCTX OCI_ATTR_SESSION ocises)
                (\<lambda>w2 u. env_step P w2
                   (CEnvSetAttr e OCI_HTYPE_SVCCTX OCI_ATTR_STMTCACHESIZE (IntV 0))
                   (\<lambda>w3 u. OpenSes_finish w3 r cfg ocisvc)))"

text \<open>The body of \<^verbatim>\<open>Srv.OpenSes\<close> after the deferred function is installed.\<close>

definition OpenSes_body ::
  "provider \<Rightarrow> world \<Rightarrow> ref option \<Rightarrow> SesCfg \<Rightarrow> (ref option \<times> error option) outcome" where
  "OpenSes_body P w srv cfg =
     (case srv of
        None \<Rightarrow> Return w (None, Some (er ''srv may not be nil.''))
      | Some r \<Rightarrow>
          (case Srv_checkClosed w srv of
             Some err \<Rightarrow> Return w (None, Some (errE err))
           | None \<Rightarrow>
               (case srv_env (srvs w r) of
                  None \<Rightarrow> Panic w NilPointerDereference
                | Some e \<Rightarrow>
                    env_step P w (CAllocHandle e OCI_HTYPE_SESSION)
                      (\<lambda>w1 ocises. OpenSes_credentials P w1 e cfg
                         (\<lambda>w2. env_step P w2 (CAllocHandle e OCI_HTYPE_SVCCTX)
                            (\<lambda>w3 ocisvc. env_step P w3
                               (CEnvSetAttr e OCI_HTYPE_SVCCTX OCI_ATTR_SERVER NullV)
                               (\<lambda>w4 u. env_step P w4
                                  (CEnvSetAttr e OCI_HTYPE_SESSION OCI_ATTR_DRIVER_NAME (StrV ''GO''))
                                  (\<lambda>w5 u. env_step P w5
                                     (CEnvSetAttr e OCI_HTYPE_SESSION
                                        OCI_ATTR_DEFAULT_LOBPREFETCH_SIZE NullV)
                                     (\<lambda>w6 u. OpenSes_begin P w6 e r cfg ocises ocisvc)))))))))"

text \<open>\<^verbatim>\<open>Srv.OpenSes\<close>: the test of \<^verbatim>\<open>cfg\<close>, then the deferred \<^verbatim>\<open>recover\<close> around the
  rest.\<close>

definition Srv_OpenSes ::
  "provider \<Rightarrow> world \<Rightarrow> ref option \<Rightarrow> SesCfg \<Rightarrow> (ref option \<times> error option) outcome" where
  "Srv_OpenSes P w srv cfg =
     (if cfg = zero_SesCfg
      then Return w (None, Some (er ''Parameter 'cfg' may not be nil.''))
      else (case OpenSes_body P w srv cfg of
              Panic w1 v \<Rightarrow> Return w1 (None, Some (errR v))
            | Return w1 res \<Rightarrow> Return w1 res))"

section \<open>What a bind pass is expected to do\<close>

text \<open>The parameters whose case of the type switch contains \<^verbatim>\<open>stmt.hasPtrBind = true\<close>.\<close>

fun sets_hasPtrBind :: "param \<Rightarrow> bool" where
  "sets_hasPtrBind (Num (PNumPtr k l)) = True"
| "sets_hasPtrBind (Num (POraSlice k vs)) = (k = KInt32 \<or> k = KInt16)"
| "sets_hasPtrBind (Num (POraSlicePtr k vs)) =
     (k = KInt64 \<or> k = KInt32 \<or> k = KFloat64 \<or> k = KFloat32)"
| "sets_hasPtrBind (Num p) = False"
| "sets_hasPtrBind (Tm (PTimePtr l)) = True"
| "sets_hasPtrBind (Tm (POraTimePtr l)) = True"
| "sets_hasPtrBind (Tm (PDatePtr l)) = True"
| "sets_hasPtrBind (Tm p) = False"
| "sets_hasPtrBind (Txt (PStringPtr l)) = True"
| "sets_hasPtrBind (Txt (PBoolPtr l)) = True"
| "sets_hasPtrBind (Txt p) = False"
| "sets_hasPtrBind (Bn (PLobPtr (Some cl))) = True"
| "sets_hasPtrBind (Bn (PRsetPtr l)) = True"
| "sets_hasPtrBind (Bn p) = False"

text \<open>The batch-shaped parameters and their lengths: the parameters whose case assigns
  \<^verbatim>\<open>iterations\<close>. A \<^verbatim>\<open>[]byte\<close> is a batch only when the configuration's \<^verbatim>\<open>byteSlice\<close> is
  \<^verbatim>\<open>U8\<close>.\<close>

fun batch_len :: "StmtCfg option \<Rightarrow> param \<Rightarrow> nat option" where
  "batch_len cfg (Num (PNumSlice k vs)) =
     (if k = KUint8
      then (case cfg of
              None \<Rightarrow> None
            | Some c \<Rightarrow> if byteSlice c = U8 then Some (glen vs) else None)
      else Some (glen vs))"
| "batch_len cfg (Num (PNumSlicePtr k vs)) = Some (glen vs)"
| "batch_len cfg (Num (POraSlice k vs)) = Some (glen vs)"
| "batch_len cfg (Num (POraSlicePtr k vs)) = Some (glen vs)"
| "batch_len cfg (Num (PNumStringSlice vs)) = Some (glen vs)"
| "batch_len cfg (Num (POraNumSlice vs)) = Some (glen vs)"
| "batch_len cfg (Num p) = None"
| "batch_len cfg (Tm (PTimeSlice vs)) = Some (glen vs)"
| "batch_len cfg (Tm (POraTimeSlice vs)) = Some (glen vs)"
| "batch_len cfg (Tm (PDateSlice vs)) = Some (glen vs)"
| "batch_len cfg (Tm (PDateSlicePtr vs)) = Some (glen vs)"
| "batch_len cfg (Tm (PIntervalYMSlice vs)) = Some (glen vs)"
| "batch_len cfg (Tm (PIntervalDSSlice vs)) = Some (glen vs)"
| "batch_len cfg (Tm p) = None"
| "batch_len cfg (Txt (PStringSlice vs)) = Some (glen vs)"
| "batch_len cfg (Txt (POraStringSlice vs)) = Some (glen vs)"
| "batch_len cfg (Txt (PStringSlicePtr vs)) = Some (glen vs)"
| "batch_len cfg (Txt (POraStringSlicePtr vs)) = Some (glen vs)"
| "batch_len cfg (Txt (PBoolSlice vs)) = Some (glen vs)"
| "batch_len cfg (Txt (POraBoolSlice vs)) = Some (glen vs)"
| "batch_len cfg (Txt p) = None"
| "batch_len cfg (Bn (PBytesSlice vs)) = Some (glen vs)"
| "batch_len cfg (Bn (PRawSlice vs)) = Some (glen vs)"
| "batch_len cfg (Bn (PLobSlice vs)) = Some (glen vs)"
| "batch_len cfg (Bn p) = None"

definition batches :: "StmtCfg option \<Rightarrow> param list \<Rightarrow> nat list" where
  "batches cfg params = List.map_filter (batch_len cfg) params"

fun vlen :: "val \<Rightarrow> nat" where
  "vlen (ListV xs) = length xs"
| "vlen v = 0"

text \<open>The spec's word on the binders of batches, which are not in src/: binding a batch
  sets the iteration count to the batch length.\<close>

definition reports_batch_length :: "provider \<Rightarrow> bool" where
  "reports_batch_length P =
     (\<forall>h idx m pos v ex. reply_iterations (P h (CBndBind idx m pos v ex)) = of_nat (vlen v))"

fun is_bind_call :: "call \<Rightarrow> bool" where
  "is_bind_call (CBndBind idx m pos v ex) = True"
| "is_bind_call (CBndNilBind pos t) = True"
| "is_bind_call c = False"

text \<open>What the loop of \<^verbatim>\<open>Stmt.bind\<close> leaves alone: everything but the elements of the
  arrays of descriptors (their lengths stay), \<^verbatim>\<open>hasPtrBind\<close> of the statement, which is
  not set back to false, and the trace, which grows by bind calls.\<close>

definition bind_frame :: "ref \<Rightarrow> world \<Rightarrow> world \<Rightarrow> bool" where
  "bind_frame r w w' =
     (envs w' = envs w \<and> srvs w' = srvs w \<and> sess w' = sess w \<and> mem w' = mem w
      \<and> binPool w' = binPool w \<and> next_array w' = next_array w
      \<and> srvPool w' = srvPool w \<and> stmtPool w' = stmtPool w
      \<and> rsetPool_next w' = rsetPool_next w \<and> sesPool_next w' = sesPool_next w
      \<and> (stmts w' r)\<lparr>hasPtrBind := False\<rparr> = (stmts w r)\<lparr>hasPtrBind := False\<rparr>
      \<and> (hasPtrBind (stmts w r) \<longrightarrow> hasPtrBind (stmts w' r))
      \<and> (\<forall>x. length (arrays w' x) = length (arrays w x))
      \<and> (\<exists>seg. trace w' = trace w @ seg \<and> list_all is_bind_call (map fst seg)))"

fun step_world :: "step \<Rightarrow> world" where
  "step_world (Continue w it e) = w"
| "step_world (ReturnNow w it e) = w"
| "step_world (Panicked w v) = w"

fun continues :: "step \<Rightarrow> (world \<times> 32 word \<times> error option) option" where
  "continues (Continue w it e) = Some (w, it, e)"
| "continues (ReturnNow w it e) = None"
| "continues (Panicked w v) = None"

text \<open>What one pass of the loop body does to the statement: it stays within the frame,
  sets \<^verbatim>\<open>hasPtrBind\<close> exactly when \<open>f\<close> says so, and returns early only with an error.\<close>

definition step_ok :: "ref \<Rightarrow> world \<Rightarrow> bool \<Rightarrow> step \<Rightarrow> bool" where
  "step_ok r w f st =
     (bind_frame r w (step_world st)
      \<and> (case st of
            Continue w' it' e' \<Rightarrow> hasPtrBind (stmts w' r) = (hasPtrBind (stmts w r) \<or> f)
          | ReturnNow w' it' e' \<Rightarrow> e' \<noteq> None
          | Panicked w' v \<Rightarrow> True))"

section \<open>The execute mode of a call\<close>

text \<open>The modes of the execute calls logged in a stretch of the trace.\<close>

fun call_mode :: "call \<Rightarrow> exec_mode option" where
  "call_mode (CStmtExecute s h it m) = Some m"
| "call_mode c = None"

definition execute_modes :: "(call \<times> reply) list \<Rightarrow> exec_mode list" where
  "execute_modes seg = List.map_filter (\<lambda>x. call_mode (fst x)) seg"

definition grows :: "exec_mode list \<Rightarrow> world \<Rightarrow> world \<Rightarrow> bool" where
  "grows ms w w' = (\<exists>seg. trace w' = trace w @ seg \<and> execute_modes seg = ms)"

text \<open>The rule for the mode: the configuration of the statement enables auto-commit and
  its session has no open transaction. The statement type is not part of it.\<close>

definition auto_commit_rule :: "world \<Rightarrow> ref \<Rightarrow> bool" where
  "auto_commit_rule w r =
     (case Stmt_Cfg w r of
        None \<Rightarrow> False
      | Some c \<Rightarrow>
          IsAutoCommitting c
          \<and> (case stmt_ses (stmts w r) of None \<Rightarrow> False | Some s \<Rightarrow> openTxs_len (sess w s) = 0))"

definition selected_mode :: "world \<Rightarrow> ref \<Rightarrow> exec_mode" where
  "selected_mode w r = (if auto_commit_rule w r then OCI_COMMIT_ON_SUCCESS else OCI_DEFAULT)"

text \<open>What the steps of \<^verbatim>\<open>Stmt.exe\<close> other than the execute call leave alone: the nodes the
  mode is read from; the trace grows by calls that are not execute calls.\<close>

definition calm :: "ref \<Rightarrow> world \<Rightarrow> world \<Rightarrow> bool" where
  "calm r w w' =
     (envs w' = envs w \<and> srvs w' = srvs w \<and> sess w' = sess w
      \<and> stmt_cfg (stmts w' r) = stmt_cfg (stmts w r)
      \<and> stmt_ses (stmts w' r) = stmt_ses (stmts w r)
      \<and> (\<exists>seg. trace w' = trace w @ seg \<and> execute_modes seg = []))"

section \<open>The identity clause of an INSERT\<close>

text \<open>What the test of lines 234-239 recognises, said without the library functions.
  \<open>occurs_at sub s i\<close>: \<open>sub\<close> occurs in \<open>s\<close> at index \<open>i\<close>. \<open>after_last_paren\<close>: the text
  after the last \<^verbatim>\<open>)\<close>, the whole text when there is none. A clause is recognised when, in
  that text, after the replacements of \<^verbatim>\<open>spcRpl\<close> and in upper case, \<^verbatim>\<open>RETURNING\<close> occurs and its
  last occurrence is followed, at its own index or later, by an occurrence of
  \<^verbatim>\<open> /*LASTINSERTID*/ INTO \<close>.\<close>

definition occurs_at :: "string \<Rightarrow> string \<Rightarrow> nat \<Rightarrow> bool" where
  "occurs_at sub s i = (take (length sub) (drop i s) = sub)"

definition after_last_paren :: "string \<Rightarrow> string" where
  "after_last_paren txt = rev (takeWhile (\<lambda>c. c \<noteq> CHR '')'') (rev txt))"

definition recognized_clause :: "string \<Rightarrow> bool" where
  "recognized_clause txt =
     (let s = map upper_char (spcRpl_Replace (after_last_paren txt))
      in \<exists>i \<in> {..length s}. occurs_at ''RETURNING'' s i
            \<and> (\<forall>j \<in> {..length s}. occurs_at ''RETURNING'' s j \<longrightarrow> j \<le> i)
            \<and> (\<exists>k \<in> {..length s}. i \<le> k \<and> occurs_at '' /*LASTINSERTID*/ INTO '' s k))"

section \<open>What a recovered call reports\<close>

text \<open>The calls of collaborators written in Go whose panic the embedding follows: the
  methods of the bind descriptors, of the result sets and of the child nodes, and
  \<^verbatim>\<open>allocOciHandle\<close> and \<^verbatim>\<open>setAttr\<close> of the environment. The functions of the OCI library
  return a status, and \<^verbatim>\<open>env.ociError()\<close> is taken to return its message.\<close>

fun go_call :: "call \<Rightarrow> bool" where
  "go_call (CBndClose b) = True"
| "go_call (CRsetClose x) = True"
| "go_call (CSesClose x) = True"
| "go_call (CBndBind idx m pos v ex) = True"
| "go_call (CBndNilBind pos t) = True"
| "go_call (CBndSetPtr n b) = True"
| "go_call (CRsetOpen x h) = True"
| "go_call (CAllocHandle e h) = True"
| "go_call (CEnvSetAttr e h a v) = True"
| "go_call c = False"

text \<open>The panics raised by these calls in a stretch of the trace.\<close>

definition panics_of :: "(call \<times> reply) list \<Rightarrow> panic list" where
  "panics_of seg =
     List.map_filter (\<lambda>x. if go_call (fst x) then reply_panic (snd x) else None) seg"

text \<open>A call that started in \<open>w\<close> and returned \<open>err\<close> in \<open>w'\<close> has recovered the panics of
  its collaborators when every panic logged during the call is the error returned, as
  \<^verbatim>\<open>errR(value)\<close>.\<close>

definition recovered :: "world \<Rightarrow> world \<Rightarrow> error option \<Rightarrow> bool" where
  "recovered w w' err =
     (\<exists>seg. trace w' = trace w @ seg \<and> (\<forall>v \<in> set (panics_of seg). err = Some (errR v)))"

text \<open>Two invariants of the parts of a body: no collaborator has panicked between \<open>w\<close>
  and \<open>w'\<close> (\<open>hushed\<close>); at most one collaborator has panicked, and then the part has
  panicked with that value (\<open>sound_step\<close> for a pass of the loop of \<^verbatim>\<open>Stmt.bind\<close>,
  \<open>sound_out\<close> for a call).\<close>

definition hushed :: "world \<Rightarrow> world \<Rightarrow> bool" where
  "hushed w w' = (\<exists>seg. trace w' = trace w @ seg \<and> panics_of seg = [])"

definition sound_step :: "world \<Rightarrow> step \<Rightarrow> bool" where
  "sound_step w st =
     (\<exists>seg. trace (step_world st) = trace w @ seg
        \<and> (panics_of seg = [] \<or> (\<exists>v. panics_of seg = [v] \<and> st = Panicked (step_world st) v)))"

definition sound_out :: "world \<Rightarrow> 'a outcome \<Rightarrow> bool" where
  "sound_out w X =
     (\<exists>seg. trace (world_of X) = trace w @ seg
        \<and> (panics_of seg = [] \<or> (\<exists>v. panics_of seg = [v] \<and> X = Panic (world_of X) v)))"

section \<open>What a teardown reports\<close>

text \<open>The failure a logged teardown step stands for: the error a child's close returned
  (wrapped by \<^verbatim>\<open>errE\<close> where \<^verbatim>\<open>Stmt.close\<close> wraps it), the recovered panic, and the
  provider's error message fetched after a failed release or detach.\<close>

fun step_failure :: "call \<times> reply \<Rightarrow> error list" where
  "step_failure (CBndClose b, rp) =
     (case reply_panic rp of
        Some v \<Rightarrow> [errR v]
      | None \<Rightarrow> (case reply_err rp of Some e \<Rightarrow> [errE e] | None \<Rightarrow> []))"
| "step_failure (CRsetClose x, rp) =
     (case reply_panic rp of
        Some v \<Rightarrow> [errR v]
      | None \<Rightarrow> (case reply_err rp of Some e \<Rightarrow> [e] | None \<Rightarrow> []))"
| "step_failure (CSesClose x, rp) =
     (case reply_panic rp of
        Some v \<Rightarrow> [errR v]
      | None \<Rightarrow> (case reply_err rp of Some e \<Rightarrow> [e] | None \<Rightarrow> []))"
| "step_failure (COciError e, rp) = [errE (reply_ociError rp)]"
| "step_failure (c, rp) = []"

definition teardown_failures :: "(call \<times> reply) list \<Rightarrow> error list" where
  "teardown_failures seg = concat (map step_failure seg)"

fun is_child_close :: "call \<Rightarrow> bool" where
  "is_child_close (CBndClose b) = True"
| "is_child_close (CRsetClose x) = True"
| "is_child_close (CSesClose x) = True"
| "is_child_close c = False"

text \<open>The child closes logged in a stretch of the trace, and a descriptor's close that
  panicked.\<close>

definition child_closes :: "(call \<times> reply) list \<Rightarrow> (call \<times> reply) list" where
  "child_closes seg = filter (\<lambda>x. is_child_close (fst x)) seg"

fun bnd_close_panic :: "call \<times> reply \<Rightarrow> bool" where
  "bnd_close_panic (CBndClose b, rp) = (reply_panic rp \<noteq> None)"
| "bnd_close_panic (c, rp) = False"

definition child_call :: "(ref \<Rightarrow> call) \<Rightarrow> bool" where
  "child_call mk = (mk = CRsetClose \<or> mk = CSesClose)"

fun present :: "'a option list \<Rightarrow> 'a list" where
  "present [] = []"
| "present (None # xs) = present xs"
| "present (Some x # xs) = x # present xs"

section \<open>Example worlds\<close>

definition closed_env :: Env where
  "closed_env = \<lparr>env_handle = None, isPkgEnv = False, env_Cfg = zero_StmtCfg, openSrvs = []\<rparr>"

definition closed_srv :: Srv where
  "closed_srv = \<lparr>srv_cfg = None, srv_env = None, ocisrv = None, openSess = []\<rparr>"

definition closed_ses :: Ses where
  "closed_ses = \<lparr>ses_srv = None, ocisvcctx = None, ses_Cfg = zero_StmtCfg,
     openStmts = None, openTxs_len = 0\<rparr>"

definition closed_stmt :: Stmt where
  "closed_stmt = \<lparr>stmt_cfg = None, stmt_ses = None, ocistmt = None, stmtType = 0, sql = [],
     gcts = [], bnds = None, hasPtrBind = False, stringPtrBufferSize = 0, openRsets = []\<rparr>"

text \<open>One environment, one server, one session and one statement, all open and linked;
  every other reference denotes a closed node.\<close>

definition world0 :: world where
  "world0 =
     \<lparr>envs = (\<lambda>_. closed_env)(0 := closed_env\<lparr>env_handle := Some 1, openSrvs := [0]\<rparr>),
      srvs = (\<lambda>_. closed_srv)(0 := closed_srv\<lparr>srv_env := Some 0, ocisrv := Some 2, openSess := [0]\<rparr>),
      sess = (\<lambda>_. closed_ses)(0 := closed_ses\<lparr>ses_srv := Some 0, ocisvcctx := Some 3,
                openStmts := Some [0]\<rparr>),
      stmts = (\<lambda>_. closed_stmt)(0 := closed_stmt\<lparr>stmt_ses := Some 0, ocistmt := Some 4,
                stmtType := 1, sql := ''SELECT 1 FROM DUAL''\<rparr>),
      arrays = (\<lambda>_. []),
      next_array = 0,
      mem = (\<lambda>_. NullV),
      binPool = PoolBndBin,
      srvPool = [],
      stmtPool = [],
      rsetPool_next = 0,
      sesPool_next = 1,
      trace = []\<rparr>"

text \<open>A provider under which every call succeeds.\<close>

definition quiet :: provider where
  "quiet h c = Done None"



text \<open>A provider whose batch binders report the batch length, as the spec says.\<close>

definition counting :: provider where
  "counting h c =
     (case c of
        CBndBind idx m pos v ex \<Rightarrow> Iterations (of_nat (vlen v)) None
      | _ \<Rightarrow> Done None)"

text \<open>A provider whose every call panics.\<close>

definition faulty :: provider where
  "faulty h c = Fault (CollaboratorPanic ''boom'')"

text \<open>\<open>world0\<close> with auto-commit enabled in the configuration of the session; the
  statement is a SELECT and the session has no open transaction.\<close>

definition worldA :: world where
  "worldA = world0\<lparr>sess := (sess world0)(0 := (sess world0 0)
               \<lparr>ses_Cfg := zero_StmtCfg\<lparr>IsAutoCommitting := True\<rparr>\<rparr>)\<rparr>"

text \<open>\<open>world0\<close> with an INSERT statement whose text carries the identity clause; \<open>pkg\<close>
  says whether the environment is the one of the database/sql package.\<close>

definition insert_world :: "bool \<Rightarrow> world" where
  "insert_world pkg =
     world0\<lparr>envs := (envs world0)(0 := (envs world0 0)\<lparr>isPkgEnv := pkg\<rparr>),
            stmts := (stmts world0)(0 := (stmts world0 0)
               \<lparr>stmtType := OCI_STMT_INSERT,
                sql := ''INSERT INTO T (A) VALUES (:1) RETURNING ID /*LASTINSERTID*/ INTO :2''\<rparr>)\<rparr>"

text \<open>A provider whose execute affects one row and whose \<^verbatim>\<open>setPtr\<close> reports the
  value 42.\<close>

definition identity_provider :: provider where
  "identity_provider h c =
     (case c of
        CBndSetPtr n b \<Rightarrow> Value (IntV 42)
      | CAttrGet x at \<Rightarrow> CodeValue 0 (IntV 1)
      | _ \<Rightarrow> Done None)"



section \<open>Properties\<close>

subsection \<open>Auxiliary facts about the teardown functions\<close>

lemma ask_world:
  "ask P w c = (w', rp) \<Longrightarrow> w' = w\<lparr>trace := trace w @ [(c, rp)]\<rparr> \<and> rp = P (trace w) c"
  by (auto simp: ask_def Let_def)

lemma teardown_failures_simps [simp]:
  "teardown_failures [] = []"
  "teardown_failures (x # xs) = step_failure x @ teardown_failures xs"
  "teardown_failures (xs @ ys) = teardown_failures xs @ teardown_failures ys"
  by (simp_all add: teardown_failures_def)

lemma child_closes_simps [simp]:
  "child_closes [] = []"
  "child_closes (x # xs) = (if is_child_close (fst x) then x # child_closes xs else child_closes xs)"
  "child_closes (xs @ ys) = child_closes xs @ child_closes ys"
  by (simp_all add: child_closes_def)

lemma child_closes_all:
  "list_all is_child_close (map fst seg) \<Longrightarrow> child_closes seg = seg"
  by (induction seg) auto

lemma close_bnds_log:
  "close_bnds P w bs errs = (w', errs', p) \<Longrightarrow>
     \<exists>seg rest. w' = w\<lparr>trace := trace w @ seg\<rparr>
       \<and> errs' @ (case p of Some v \<Rightarrow> [errR v] | None \<Rightarrow> []) = errs @ teardown_failures seg
       \<and> list_all is_child_close (map fst seg)
       \<and> map fst seg @ rest = map CBndClose (present bs)
       \<and> (case p of
             None \<Rightarrow> rest = [] \<and> \<not> list_ex bnd_close_panic seg
           | Some v \<Rightarrow> seg \<noteq> [] \<and> bnd_close_panic (last seg)
                        \<and> \<not> list_ex bnd_close_panic (butlast seg))"
proof (induction P w bs errs rule: close_bnds.induct)
  case (1 P w errs)
  then show ?case by (auto intro!: exI[of _ "[]"])
next
  case (2 P w bs errs)
  then show ?case by simp
next
  case (3 P w b bs errs)
  obtain w1 rp where a: "ask P w (CBndClose b) = (w1, rp)" by (cases "ask P w (CBndClose b)")
  then have w1: "w1 = w\<lparr>trace := trace w @ [(CBndClose b, rp)]\<rparr>" by (simp add: ask_world)
  show ?case
  proof (cases "reply_panic rp")
    case (Some v)
    with 3(3) a have "w' = w1" "errs' = errs" "p = Some v" by auto
    with w1 Some show ?thesis
      by (intro exI[of _ "[(CBndClose b, rp)]"] exI[of _ "map CBndClose (present bs)"]) simp
  next
    case None
    let ?errs = "errs @ (case reply_err rp of Some e \<Rightarrow> [errE e] | None \<Rightarrow> [])"
    have c: "close_bnds P w1 bs ?errs = (w', errs', p)"
      using None 3(3) a by (cases "reply_err rp") simp_all
    have "\<exists>seg rest. w' = w1\<lparr>trace := trace w1 @ seg\<rparr>
       \<and> errs' @ (case p of Some v \<Rightarrow> [errR v] | None \<Rightarrow> []) = ?errs @ teardown_failures seg
       \<and> list_all is_child_close (map fst seg)
       \<and> map fst seg @ rest = map CBndClose (present bs)
       \<and> (case p of
             None \<Rightarrow> rest = [] \<and> \<not> list_ex bnd_close_panic seg
           | Some v \<Rightarrow> seg \<noteq> [] \<and> bnd_close_panic (last seg)
                        \<and> \<not> list_ex bnd_close_panic (butlast seg))"
    proof (cases "reply_err rp")
      case N: None
      with c have "close_bnds P w1 bs errs = (w', errs', p)" by simp
      from 3(1)[OF a[symmetric] refl None N this] N show ?thesis by simp
    next
      case (Some e)
      with c have "close_bnds P w1 bs (errs @ [errE e]) = (w', errs', p)" by simp
      from 3(2)[OF a[symmetric] refl None Some this] Some show ?thesis by simp
    qed
    then obtain seg rest where
      s: "w' = w1\<lparr>trace := trace w1 @ seg\<rparr>"
         "errs' @ (case p of Some v \<Rightarrow> [errR v] | None \<Rightarrow> []) = ?errs @ teardown_failures seg"
         "list_all is_child_close (map fst seg)"
         "map fst seg @ rest = map CBndClose (present bs)"
         "(case p of
             None \<Rightarrow> rest = [] \<and> \<not> list_ex bnd_close_panic seg
           | Some v \<Rightarrow> seg \<noteq> [] \<and> bnd_close_panic (last seg)
                        \<and> \<not> list_ex bnd_close_panic (butlast seg))"
      by blast
    have f: "step_failure (CBndClose b, rp) = (case reply_err rp of Some e \<Rightarrow> [errE e] | None \<Rightarrow> [])"
      using None by simp
    have q: "\<not> bnd_close_panic (CBndClose b, rp)" using None by simp
    show ?thesis
    proof (intro exI[of _ "(CBndClose b, rp) # seg"] exI[of _ rest] conjI)
      show "w' = w\<lparr>trace := trace w @ (CBndClose b, rp) # seg\<rparr>" using s(1) w1 by simp
      show "errs' @ (case p of Some v \<Rightarrow> [errR v] | None \<Rightarrow> [])
              = errs @ teardown_failures ((CBndClose b, rp) # seg)"
        using s(2) f by simp
      show "list_all is_child_close (map fst ((CBndClose b, rp) # seg))" using s(3) by simp
      show "map fst ((CBndClose b, rp) # seg) @ rest = map CBndClose (present (Some b # bs))"
        using s(4) by simp
      show "case p of
             None \<Rightarrow> rest = [] \<and> \<not> list_ex bnd_close_panic ((CBndClose b, rp) # seg)
           | Some v \<Rightarrow> (CBndClose b, rp) # seg \<noteq> [] \<and> bnd_close_panic (last ((CBndClose b, rp) # seg))
                        \<and> \<not> list_ex bnd_close_panic (butlast ((CBndClose b, rp) # seg))"
        using s(5) q by (cases p) auto
    qed
  qed
qed

lemma child_call_failure:
  "child_call mk \<Longrightarrow> step_failure (mk c, rp) =
     (case reply_panic rp of Some v \<Rightarrow> [errR v]
      | None \<Rightarrow> (case reply_err rp of Some e \<Rightarrow> [e] | None \<Rightarrow> []))"
  by (auto simp: child_call_def)

lemma child_call_close: "child_call mk \<Longrightarrow> is_child_close (mk c) \<and> \<not> bnd_close_panic (mk c, rp)"
  by (auto simp: child_call_def)

lemma closeAll_log:
  "child_call mk \<Longrightarrow> closeAll mk P w cs errs = (w', errs') \<Longrightarrow>
     \<exists>seg. w' = w\<lparr>trace := trace w @ seg\<rparr>
       \<and> errs' = errs @ teardown_failures seg
       \<and> map fst seg = map mk cs
       \<and> list_all is_child_close (map fst seg)
       \<and> \<not> list_ex bnd_close_panic seg"
proof (induction cs arbitrary: w errs)
  case Nil
  then show ?case by (auto intro!: exI[of _ "[]"])
next
  case (Cons c cs)
  obtain w1 rp where a: "ask P w (mk c) = (w1, rp)" by (cases "ask P w (mk c)")
  then have w1: "w1 = w\<lparr>trace := trace w @ [(mk c, rp)]\<rparr>" by (simp add: ask_world)
  note f = child_call_failure[OF Cons.prems(1), of c rp] and k = child_call_close[OF Cons.prems(1), of c rp]
  have "closeAll mk P w1 cs (errs @ step_failure (mk c, rp)) = (w', errs')"
    using Cons.prems(2) a f by (auto split: option.splits)
  from Cons.IH[OF Cons.prems(1) this] obtain seg where
    s: "w' = w1\<lparr>trace := trace w1 @ seg\<rparr>"
       "errs' = (errs @ step_failure (mk c, rp)) @ teardown_failures seg"
       "map fst seg = map mk cs" "list_all is_child_close (map fst seg)"
       "\<not> list_ex bnd_close_panic seg"
    by blast
  with w1 k show ?case
    by (intro exI[of _ "(mk c, rp) # seg"]) simp
qed

lemma Stmt_env_trace [simp]: "Stmt_env (w\<lparr>trace := t\<rparr>) r = Stmt_env w r"
  by (simp add: Stmt_env_def split: option.splits)

lemma Stmt_close_deferred_log:
  assumes "Stmt_env w r = Some e"
    and "errs @ (case p of Some v \<Rightarrow> [errR v] | None \<Rightarrow> []) = base"
  shows "\<exists>w' seg. Stmt_close_deferred P w r errs p
            = Return w' (merged (base @ teardown_failures seg))
          \<and> trace w' = trace w @ seg
          \<and> ocistmt (stmts w' r) = None \<and> \<not> hasPtrBind (stmts w' r)
          \<and> CStmtRelease (ocistmt (stmts w r)) \<in> set (map fst seg)
          \<and> child_closes seg = [] \<and> \<not> list_ex bnd_close_panic seg"
proof -
  let ?W = "world_of (Stmt_close_deferred P w r errs p)"
  have base: "(case p of Some v \<Rightarrow> errs @ [errR v] | None \<Rightarrow> errs) = base"
    using assms(2) by (cases p) auto
  obtain w1 rp where a: "ask P w (CStmtRelease (ocistmt (stmts w r))) = (w1, rp)"
    by (cases "ask P w (CStmtRelease (ocistmt (stmts w r)))")
  then have w1: "w1 = w\<lparr>trace := trace w @ [(CStmtRelease (ocistmt (stmts w r)), rp)]\<rparr>"
    by (simp add: ask_world)
  show ?thesis
  proof (cases "reply_code rp = OCI_ERROR")
    case False
    with assms(1) base a w1 show ?thesis
      unfolding Stmt_close_deferred_def
      by (intro exI[of _ ?W] exI[of _ "[(CStmtRelease (ocistmt (stmts w r)), rp)]"])
         (simp add: Let_def Stmt_close_deferred_def)
  next
    case True
    obtain w2 re where b: "ask P w1 (COciError e) = (w2, re)" by (cases "ask P w1 (COciError e)")
    then have w2: "w2 = w1\<lparr>trace := trace w1 @ [(COciError e, re)]\<rparr>" by (simp add: ask_world)
    from True assms(1) base a b w1 w2 show ?thesis
      unfolding Stmt_close_deferred_def
      by (intro exI[of _ ?W]
            exI[of _ "[(CStmtRelease (ocistmt (stmts w r)), rp), (COciError e, re)]"])
         (simp add: Let_def Stmt_close_deferred_def)
  qed
qed

lemma list_ex_append_last:
  "seg \<noteq> [] \<Longrightarrow> Q (last seg) \<Longrightarrow> list_ex Q seg"
  by (induction seg) (auto split: if_splits)

lemma Stmt_close_log:
  assumes o: "Stmt_checkClosed w r = None" and e: "Stmt_env w r = Some e"
  shows "\<exists>w' seg rest. Stmt_close P w r = Return w' (merged (teardown_failures seg))
          \<and> trace w' = trace w @ seg
          \<and> ocistmt (stmts w' r) = None \<and> \<not> hasPtrBind (stmts w' r)
          \<and> CStmtRelease (ocistmt (stmts w r)) \<in> set (map fst seg)
          \<and> map fst (child_closes seg) @ rest
               = map CBndClose (present (slice_elems w (bnds (stmts w r))))
                 @ map CRsetClose (openRsets (stmts w r))
          \<and> (if list_ex bnd_close_panic seg
              then child_closes seg \<noteq> [] \<and> bnd_close_panic (last (child_closes seg))
                   \<and> \<not> list_ex bnd_close_panic (butlast (child_closes seg))
              else rest = [])"
proof -
  let ?bs = "slice_elems w (bnds (stmts w r))"
  obtain w1 errs1 p1 where c1: "close_bnds P w ?bs [] = (w1, errs1, p1)"
    by (cases "close_bnds P w ?bs []") auto
  from close_bnds_log[OF c1] obtain seg1 rest1 where
    s1: "w1 = w\<lparr>trace := trace w @ seg1\<rparr>"
        "errs1 @ (case p1 of Some v \<Rightarrow> [errR v] | None \<Rightarrow> []) = teardown_failures seg1"
        "list_all is_child_close (map fst seg1)"
        "map fst seg1 @ rest1 = map CBndClose (present ?bs)"
        "(case p1 of
             None \<Rightarrow> rest1 = [] \<and> \<not> list_ex bnd_close_panic seg1
           | Some v \<Rightarrow> seg1 \<noteq> [] \<and> bnd_close_panic (last seg1)
                        \<and> \<not> list_ex bnd_close_panic (butlast seg1))"
    by auto
  have cc1: "child_closes seg1 = seg1" using s1(3) by (rule child_closes_all)
  show ?thesis
  proof (cases p1)
    case (Some v)
    have ev: "Stmt_env w1 r = Some e" using e s1(1) by simp
    from Stmt_close_deferred_log[OF ev s1(2), of P] obtain w' seg where
      d: "Stmt_close_deferred P w1 r errs1 p1
            = Return w' (merged (teardown_failures seg1 @ teardown_failures seg))"
         "trace w' = trace w1 @ seg" "ocistmt (stmts w' r) = None" "\<not> hasPtrBind (stmts w' r)"
         "CStmtRelease (ocistmt (stmts w1 r)) \<in> set (map fst seg)"
         "child_closes seg = []" "\<not> list_ex bnd_close_panic seg"
      by auto
    have x: "Stmt_close P w r = Stmt_close_deferred P w1 r errs1 p1"
      using o c1 Some by (simp add: Stmt_close_def)
    from s1(5) Some have p: "seg1 \<noteq> []" "bnd_close_panic (last seg1)"
      "\<not> list_ex bnd_close_panic (butlast seg1)" by simp_all
    have ex: "list_ex bnd_close_panic seg1" using p(1,2) by (rule list_ex_append_last)
    show ?thesis
    proof (intro exI[of _ w'] exI[of _ "seg1 @ seg"]
        exI[of _ "rest1 @ map CRsetClose (openRsets (stmts w r))"] conjI)
      show "Stmt_close P w r = Return w' (merged (teardown_failures (seg1 @ seg)))"
        using x d(1) by simp
      show "trace w' = trace w @ seg1 @ seg" using d(2) s1(1) by simp
      show "ocistmt (stmts w' r) = None" by (rule d(3))
      show "\<not> hasPtrBind (stmts w' r)" by (rule d(4))
      show "CStmtRelease (ocistmt (stmts w r)) \<in> set (map fst (seg1 @ seg))"
        using d(5) s1(1) by simp
      show "map fst (child_closes (seg1 @ seg)) @ rest1 @ map CRsetClose (openRsets (stmts w r))
              = map CBndClose (present ?bs) @ map CRsetClose (openRsets (stmts w r))"
        using cc1 d(6) s1(4) by simp
      show "if list_ex bnd_close_panic (seg1 @ seg)
            then child_closes (seg1 @ seg) \<noteq> [] \<and> bnd_close_panic (last (child_closes (seg1 @ seg)))
                 \<and> \<not> list_ex bnd_close_panic (butlast (child_closes (seg1 @ seg)))
            else rest1 @ map CRsetClose (openRsets (stmts w r)) = []"
        using ex p cc1 d(6) by simp
    qed
  next
    case None
    let ?rs = "openRsets (stmts w1 r)"
    obtain w2 errs2 where c2: "closeAll CRsetClose P w1 ?rs errs1 = (w2, errs2)"
      by (cases "closeAll CRsetClose P w1 ?rs errs1")
    have cc: "child_call CRsetClose" by (simp add: child_call_def)
    from closeAll_log[OF cc c2] obtain seg2 where
      s2: "w2 = w1\<lparr>trace := trace w1 @ seg2\<rparr>"
          "errs2 = errs1 @ teardown_failures seg2"
          "map fst seg2 = map CRsetClose ?rs" "list_all is_child_close (map fst seg2)"
          "\<not> list_ex bnd_close_panic seg2"
      by auto
    have cc2: "child_closes seg2 = seg2" using s2(4) by (rule child_closes_all)
    have e1: "errs1 = teardown_failures seg1" using s1(2) None by simp
    have base: "errs2 @ (case None of Some v \<Rightarrow> [errR v] | None \<Rightarrow> [])
                  = teardown_failures (seg1 @ seg2)"
      using s2(2) e1 by simp
    have ev: "Stmt_env w2 r = Some e" using e s1(1) s2(1) by simp
    from Stmt_close_deferred_log[OF ev base, of P] obtain w' seg where
      d: "Stmt_close_deferred P w2 r errs2 None
            = Return w' (merged (teardown_failures (seg1 @ seg2) @ teardown_failures seg))"
         "trace w' = trace w2 @ seg" "ocistmt (stmts w' r) = None" "\<not> hasPtrBind (stmts w' r)"
         "CStmtRelease (ocistmt (stmts w2 r)) \<in> set (map fst seg)"
         "child_closes seg = []" "\<not> list_ex bnd_close_panic seg"
      by auto
    have x: "Stmt_close P w r = Stmt_close_deferred P w2 r errs2 None"
      using o c1 c2 None by (simp add: Stmt_close_def)
    from s1(5) None have p: "rest1 = []" "\<not> list_ex bnd_close_panic seg1" by simp_all
    show ?thesis
    proof (intro exI[of _ w'] exI[of _ "seg1 @ seg2 @ seg"] exI[of _ "[]"] conjI)
      show "Stmt_close P w r = Return w' (merged (teardown_failures (seg1 @ seg2 @ seg)))"
        using x d(1) by simp
      show "trace w' = trace w @ seg1 @ seg2 @ seg" using d(2) s1(1) s2(1) by simp
      show "ocistmt (stmts w' r) = None" by (rule d(3))
      show "\<not> hasPtrBind (stmts w' r)" by (rule d(4))
      show "CStmtRelease (ocistmt (stmts w r)) \<in> set (map fst (seg1 @ seg2 @ seg))"
        using d(5) s1(1) s2(1) by simp
      show "map fst (child_closes (seg1 @ seg2 @ seg)) @ []
              = map CBndClose (present ?bs) @ map CRsetClose (openRsets (stmts w r))"
        using cc1 cc2 d(6) s1(1,4) s2(3) p(1) by simp
      show "if list_ex bnd_close_panic (seg1 @ seg2 @ seg)
            then child_closes (seg1 @ seg2 @ seg) \<noteq> []
                 \<and> bnd_close_panic (last (child_closes (seg1 @ seg2 @ seg)))
                 \<and> \<not> list_ex bnd_close_panic (butlast (child_closes (seg1 @ seg2 @ seg)))
            else [] = []"
        using p(2) s2(5) d(7) by simp
    qed
  qed
qed

lemma Stmt_close_unlinked:
  assumes o: "Stmt_checkClosed w r = None" and e: "Stmt_env w r = None"
  shows "panicked (Stmt_close P w r) = Some NilPointerDereference"
proof -
  let ?bs = "slice_elems w (bnds (stmts w r))"
  obtain w1 errs1 p1 where c1: "close_bnds P w ?bs [] = (w1, errs1, p1)"
    by (cases "close_bnds P w ?bs []") auto
  from close_bnds_log[OF c1] obtain seg1 where s1: "w1 = w\<lparr>trace := trace w @ seg1\<rparr>" by auto
  have e1: "Stmt_env w1 r = None" using e s1 by simp
  show ?thesis
  proof (cases p1)
    case (Some v)
    with o c1 e1 show ?thesis by (simp add: Stmt_close_def Stmt_close_deferred_def)
  next
    case None
    obtain w2 errs2 where c2: "closeAll CRsetClose P w1 (openRsets (stmts w1 r)) errs1 = (w2, errs2)"
      by (cases "closeAll CRsetClose P w1 (openRsets (stmts w1 r)) errs1")
    have cc: "child_call CRsetClose" by (simp add: child_call_def)
    from closeAll_log[OF cc c2] obtain seg2 where s2: "w2 = w1\<lparr>trace := trace w1 @ seg2\<rparr>" by auto
    have "Stmt_env w2 r = None" using e1 s2 by simp
    with o c1 c2 None show ?thesis by (simp add: Stmt_close_def Stmt_close_deferred_def)
  qed
qed

lemma Srv_close_deferred_log:
  "Srv_close_deferred w r errs p
     = Return (w\<lparr>srvs := (srvs w)(r := (srvs w r)\<lparr>srv_cfg := Some ([], zero_StmtCfg), openSess := [],
                 srv_env := None, ocisrv := None\<rparr>), srvPool := r # srvPool w\<rparr>)
         (merged (errs @ (case p of Some v \<Rightarrow> [errR v] | None \<Rightarrow> [])))"
  by (simp add: Srv_close_deferred_def Let_def split: option.splits)

lemma Srv_close_log:
  assumes o: "Srv_checkClosed w (Some r) = None"
  shows "\<exists>w' seg. Srv_close P w r = Return w' (merged (teardown_failures seg))
          \<and> trace w' = trace w @ seg
          \<and> ocisrv (srvs w' r) = None \<and> srv_env (srvs w' r) = None
          \<and> map fst (child_closes seg) = map CSesClose (openSess (srvs w r))
          \<and> CServerDetach (ocisrv (srvs w r)) \<in> set (map fst seg)"
proof -
  from o obtain e where e: "srv_env (srvs w r) = Some e"
    by (auto simp: Srv_checkClosed_def Env_checkClosed_def Let_def split: option.splits if_splits)
  let ?ss = "openSess (srvs w r)"
  obtain w1 errs1 where c1: "closeAll CSesClose P w ?ss [] = (w1, errs1)"
    by (cases "closeAll CSesClose P w ?ss []")
  have cc: "child_call CSesClose" by (simp add: child_call_def)
  from closeAll_log[OF cc c1] obtain seg1 where
    s1: "w1 = w\<lparr>trace := trace w @ seg1\<rparr>"
        "errs1 = teardown_failures seg1"
        "map fst seg1 = map CSesClose ?ss" "list_all is_child_close (map fst seg1)"
    by auto
  have cc1: "child_closes seg1 = seg1" using s1(4) by (rule child_closes_all)
  have e1: "srv_env (srvs w1 r) = Some e" using e s1(1) by simp
  obtain w2 rp where a: "ask P w1 (CServerDetach (ocisrv (srvs w1 r))) = (w2, rp)"
    by (cases "ask P w1 (CServerDetach (ocisrv (srvs w1 r)))")
  then have w2: "w2 = w1\<lparr>trace := trace w1 @ [(CServerDetach (ocisrv (srvs w1 r)), rp)]\<rparr>"
    by (simp add: ask_world)
  show ?thesis
  proof (cases "reply_code rp = OCI_ERROR")
    case False
    have "Srv_close P w r = Srv_close_deferred w2 r errs1 None"
      using o c1 e1 a False by (simp add: Srv_close_def)
    with s1(1,2,3) w2 cc1 show ?thesis
      by (intro exI[of _ "world_of (Srv_close P w r)"]
            exI[of _ "seg1 @ [(CServerDetach (ocisrv (srvs w1 r)), rp)]"])
         (simp add: Srv_close_deferred_log)
  next
    case True
    obtain w3 re where b: "ask P w2 (COciError e) = (w3, re)" by (cases "ask P w2 (COciError e)")
    then have w3: "w3 = w2\<lparr>trace := trace w2 @ [(COciError e, re)]\<rparr>" by (simp add: ask_world)
    have "Srv_close P w r = Srv_close_deferred w3 r (errs1 @ [errE (reply_ociError re)]) None"
      using o c1 e1 a b True by (simp add: Srv_close_def)
    with s1(1,2,3) w2 w3 cc1 show ?thesis
      by (intro exI[of _ "world_of (Srv_close P w r)"]
            exI[of _ "seg1 @ [(CServerDetach (ocisrv (srvs w1 r)), rp), (COciError e, re)]"])
         (simp add: Srv_close_deferred_log)
  qed
qed


lemma Srv_checkClosed_envs:
  "Srv_checkClosed (w\<lparr>envs := (envs w)(e := (envs w e)\<lparr>openSrvs := l\<rparr>)\<rparr>) srv
     = Srv_checkClosed w srv"
  by (auto simp: Srv_checkClosed_def Env_checkClosed_def Let_def split: option.splits)

lemma Srv_close_closed:
  "ocisrv (srvs w r) = None \<Longrightarrow>
     \<exists>err. Srv_close P w r = Return w (Some err) \<and> is_closed_error err"
  by (simp add: Srv_close_def Srv_checkClosed_def er_def errE_def)

lemma Stmt_close_closed:
  "ocistmt (stmts w r) = None \<Longrightarrow>
     \<exists>err. Stmt_close P w r = Return w (Some err) \<and> is_closed_error err"
  by (simp add: Stmt_close_def Stmt_checkClosed_def er_def errE_def)

lemma Stmt_close_returns:
  assumes "ocistmt (stmts w r) \<noteq> None" and "Stmt_close P w r = Return w1 res"
  shows "ocistmt (stmts w1 r) = None \<and> \<not> hasPtrBind (stmts w1 r)"
proof -
  have o: "Stmt_checkClosed w r = None" using assms(1) by (simp add: Stmt_checkClosed_def)
  show ?thesis
  proof (cases "Stmt_env w r")
    case None
    from Stmt_close_unlinked[OF o None, of P] assms(2) show ?thesis by simp
  next
    case (Some e)
    from Stmt_close_log[OF o Some, of P] assms(2) show ?thesis by auto
  qed
qed

subsection \<open>Auxiliary facts about Stmt.bind\<close>

lemma bind_frame_refl [simp]: "bind_frame r w w"
  by (simp add: bind_frame_def)

lemma bind_frame_trans:
  assumes "bind_frame r w w1" and "bind_frame r w1 w2"
  shows "bind_frame r w w2"
proof -
  from assms(1) obtain seg1 where 1: "trace w1 = trace w @ seg1" "list_all is_bind_call (map fst seg1)"
    by (auto simp: bind_frame_def)
  from assms(2) obtain seg2 where 2: "trace w2 = trace w1 @ seg2" "list_all is_bind_call (map fst seg2)"
    by (auto simp: bind_frame_def)
  have "trace w2 = trace w @ (seg1 @ seg2) \<and> list_all is_bind_call (map fst (seg1 @ seg2))"
    using 1 2 by simp
  then have "\<exists>seg. trace w2 = trace w @ seg \<and> list_all is_bind_call (map fst seg)" by blast
  with assms show ?thesis
    unfolding bind_frame_def by simp
qed

lemma Stmt_Cfg_cong:
  "envs w' = envs w \<Longrightarrow> srvs w' = srvs w \<Longrightarrow> sess w' = sess w \<Longrightarrow>
   stmt_cfg (stmts w' r) = stmt_cfg (stmts w r) \<Longrightarrow> stmt_ses (stmts w' r) = stmt_ses (stmts w r) \<Longrightarrow>
   Stmt_Cfg w' r = Stmt_Cfg w r"
  by (simp add: Stmt_Cfg_def Let_def split: option.splits)

lemma flagless_fields:
  assumes "(s' :: Stmt)\<lparr>hasPtrBind := False\<rparr> = s\<lparr>hasPtrBind := False\<rparr>"
  shows "stmt_cfg s' = stmt_cfg s" "stmt_ses s' = stmt_ses s" "ocistmt s' = ocistmt s"
    "stmtType s' = stmtType s" "sql s' = sql s" "bnds s' = bnds s"
    "stringPtrBufferSize s' = stringPtrBufferSize s" "openRsets s' = openRsets s"
proof -
  show "stmt_cfg s' = stmt_cfg s" using arg_cong[OF assms, of stmt_cfg] by simp
  show "stmt_ses s' = stmt_ses s" using arg_cong[OF assms, of stmt_ses] by simp
  show "ocistmt s' = ocistmt s" using arg_cong[OF assms, of ocistmt] by simp
  show "stmtType s' = stmtType s" using arg_cong[OF assms, of stmtType] by simp
  show "sql s' = sql s" using arg_cong[OF assms, of sql] by simp
  show "bnds s' = bnds s" using arg_cong[OF assms, of bnds] by simp
  show "stringPtrBufferSize s' = stringPtrBufferSize s"
    using arg_cong[OF assms, of stringPtrBufferSize] by simp
  show "openRsets s' = openRsets s" using arg_cong[OF assms, of openRsets] by simp
qed

lemma bind_frame_Cfg: "bind_frame r w w' \<Longrightarrow> Stmt_Cfg w' r = Stmt_Cfg w r"
  by (rule Stmt_Cfg_cong) (auto simp: bind_frame_def dest: flagless_fields)

lemma bind_frame_set_bnd [simp]: "bind_frame r w (set_bnd w a n b)"
  by (simp add: bind_frame_def set_bnd_def)

lemma Stmt_Cfg_set_bnd [simp]: "Stmt_Cfg (set_bnd w a n b) r = Stmt_Cfg w r"
  by (rule Stmt_Cfg_cong) (simp_all add: set_bnd_def)

lemma stmts_set_bnd [simp]: "stmts (set_bnd w a n b) = stmts w"
  by (simp add: set_bnd_def)

lemma binPool_set_bnd [simp]: "binPool (set_bnd w a n b) = binPool w"
  by (simp add: set_bnd_def)

lemma vlen_gval [simp]: "vlen (gval vs) = glen vs"
  by (cases vs) (simp_all add: gval_def glen_def)

lemma bind_frame_ask:
  "is_bind_call c \<Longrightarrow> bind_frame r w (fst (ask P w c))"
  by (simp add: bind_frame_def ask_def Let_def)

lemma stmts_ask [simp]: "stmts (fst (ask P w c)) = stmts w"
  by (simp add: ask_def Let_def)

lemma call_bind_ok:
  assumes "is_bind_call c" "bind_frame r w w0" "hasPtrBind (stmts w0 r) = hasPtrBind (stmts w r)"
  shows "step_ok r w False (call_bind P w0 it c)"
proof -
  have f: "bind_frame r w (fst (ask P w0 c))"
    using bind_frame_trans[OF assms(2) bind_frame_ask[OF assms(1)]] .
  have s: "stmts (fst (ask P w0 c)) = stmts w0" by simp
  show ?thesis
    using f s assms(3)
    by (cases "ask P w0 c")
       (auto simp: step_ok_def call_bind_def split: option.splits)
qed

lemma call_bind_it:
  "continues (call_bind P w0 it c) = Some (w', it', e') \<Longrightarrow> it' = it"
  by (cases "ask P w0 c") (auto simp: call_bind_def split: option.splits)

lemma call_slice_bind_ok:
  assumes "is_bind_call c" "bind_frame r w w0" "hasPtrBind (stmts w0 r) = hasPtrBind (stmts w r)"
  shows "step_ok r w False (call_slice_bind P w0 err sh c)"
proof -
  have f: "bind_frame r w (fst (ask P w0 c))"
    using bind_frame_trans[OF assms(2) bind_frame_ask[OF assms(1)]] .
  have s: "stmts (fst (ask P w0 c)) = stmts w0" by simp
  show ?thesis
    using f s assms(3)
    by (cases "ask P w0 c")
       (auto simp: step_ok_def call_slice_bind_def split: option.splits)
qed

lemma call_slice_bind_it:
  "reports_batch_length P \<Longrightarrow>
   continues (call_slice_bind P w0 err sh (CBndBind idx m pos v ex)) = Some (w', it', e') \<Longrightarrow>
   it' = of_nat (vlen v)"
  by (cases "ask P w0 (CBndBind idx m pos v ex)")
     (auto simp: call_slice_bind_def reports_batch_length_def ask_def Let_def split: option.splits)

lemma then_hasPtrBind_ok:
  "step_ok r w f st \<Longrightarrow> step_ok r w True (then_hasPtrBind r st)"
  by (cases st) (auto simp: step_ok_def then_hasPtrBind_def bind_frame_def)

lemma then_hasPtrBind_it:
  "continues (then_hasPtrBind r st) = Some (w', it', e') \<Longrightarrow> \<exists>w''. continues st = Some (w'', it', e')"
  by (cases st) (auto simp: then_hasPtrBind_def)

lemma then_iterations_ok:
  "step_ok r w f st \<Longrightarrow> step_ok r w f (then_iterations len st)"
  by (cases st) (auto simp: step_ok_def then_iterations_def)

lemma then_iterations_it:
  "continues (then_iterations len st) = Some (w', it', e') \<Longrightarrow> it' = of_nat len"
  by (cases st) (auto simp: then_iterations_def)

lemma setNilBind_frame:
  "bind_frame r w (world_of (setNilBind P w r n t)) \<and>
   hasPtrBind (stmts (world_of (setNilBind P w r n t)) r) = hasPtrBind (stmts w r)"
  by (auto simp: setNilBind_def bind_frame_def ask_def Let_def set_bnd_def split: option.splits)

lemma nil_bind_ignored_ok: "step_ok r w False (nil_bind_ignored P w r n it err t)"
  using setNilBind_frame[of r w P n t]
  by (cases "setNilBind P w r n t") (auto simp: step_ok_def nil_bind_ignored_def)

lemma nil_bind_assigned_ok: "step_ok r w False (nil_bind_assigned P w r n it t)"
  using setNilBind_frame[of r w P n t]
  by (cases "setNilBind P w r n t") (auto simp: step_ok_def nil_bind_assigned_def)

lemma nil_bind_ignored_it:
  "continues (nil_bind_ignored P w r n it err t) = Some (w', it', e') \<Longrightarrow> it' = it"
  by (cases "setNilBind P w r n t") (auto simp: nil_bind_ignored_def)

lemma nil_bind_assigned_it:
  "continues (nil_bind_assigned P w r n it t) = Some (w', it', e') \<Longrightarrow> it' = it"
  by (cases "setNilBind P w r n t") (auto simp: nil_bind_assigned_def)

lemma step_ok_Panicked: "bind_frame r w w1 \<Longrightarrow> step_ok r w f (Panicked w1 v)"
  by (simp add: step_ok_def)

lemma step_ok_error:
  "step_ok r w f (ReturnNow w' it' e') \<Longrightarrow> e' \<noteq> None"
  by (simp add: step_ok_def)

lemma invalid_param_ok: "step_ok r w f (invalid_param w it b)"
  by (simp add: invalid_param_def step_ok_def)

lemma scalar_bind_ok: "step_ok r w False (scalar_bind P w a n it idx m v ex)"
  unfolding scalar_bind_def by (rule call_bind_ok) simp_all

lemma ptr_bind_ok: "step_ok r w True (ptr_bind P w r a n it idx l ex)"
  unfolding ptr_bind_def by (rule then_hasPtrBind_ok, rule call_bind_ok) simp_all

lemma slice_bind_ok: "step_ok r w False (slice_bind P w a n err idx m vs assoc sh)"
  unfolding slice_bind_def by (rule call_slice_bind_ok) simp_all

lemma with_cfg_ok:
  assumes "bind_frame r w w1" and "\<And>c. step_ok r w f (g c)"
  shows "step_ok r w f (with_cfg w1 r g)"
proof (cases "Stmt_Cfg w1 r")
  case None
  then show ?thesis using assms(1) by (simp add: with_cfg_def step_ok_def)
next
  case (Some c)
  then show ?thesis using assms(2)[of c] by (simp add: with_cfg_def)
qed

lemma call_bind_set_ok:
  "is_bind_call c \<Longrightarrow> step_ok r w False (call_bind P (set_bnd w a n b) it c)"
  by (rule call_bind_ok) simp_all

lemma call_slice_bind_set_ok:
  "is_bind_call c \<Longrightarrow> step_ok r w False (call_slice_bind P (set_bnd w a n b) err sh c)"
  by (rule call_slice_bind_ok) simp_all

lemmas ok_intros = scalar_bind_ok ptr_bind_ok slice_bind_ok nil_bind_ignored_ok
  nil_bind_assigned_ok invalid_param_ok then_hasPtrBind_ok then_iterations_ok with_cfg_ok
  call_bind_set_ok call_slice_bind_set_ok step_ok_Panicked bind_frame_set_bnd bind_frame_refl

lemma bind_bytes_ok: "step_ok r w False (bind_bytes P r a assoc n w it err vs)"
  unfolding bind_bytes_def
  by (auto intro!: ok_intros simp: Let_def split: binPoolType.splits)

lemma bind_num_ok: "step_ok r w (sets_hasPtrBind (Num p)) (bind_num P r a assoc n w it err p)"
  by (cases p) (auto intro!: ok_intros bind_bytes_ok simp: Let_def)

lemma bind_time_ok: "step_ok r w (sets_hasPtrBind (Tm p)) (bind_time P r a assoc n w it err p)"
  by (cases p) (auto intro!: ok_intros simp: Let_def split: option.splits)

lemma bind_text_ok: "step_ok r w (sets_hasPtrBind (Txt p)) (bind_text P r a assoc n w it err p)"
  by (cases p) (auto intro!: ok_intros simp: Let_def split: option.splits)

lemma bind_bin_ok: "step_ok r w (sets_hasPtrBind (Bn p)) (bind_bin P r a assoc n w it err p)"
  by (cases p) (auto intro!: ok_intros simp: Let_def split: option.splits)

lemma bind_param_ok: "step_ok r w (sets_hasPtrBind p) (bind_param P r a assoc n w it err p)"
  by (cases p) (simp_all add: bind_num_ok bind_time_ok bind_text_ok bind_bin_ok)

lemma scalar_bind_it:
  "continues (scalar_bind P w a n it idx m v ex) = Some (w', it', e') \<Longrightarrow> it' = it"
  unfolding scalar_bind_def by (rule call_bind_it)

lemma ptr_bind_it:
  "continues (ptr_bind P w r a n it idx l ex) = Some (w', it', e') \<Longrightarrow> it' = it"
  unfolding ptr_bind_def by (auto dest!: then_hasPtrBind_it call_bind_it)

lemma slice_bind_it:
  "reports_batch_length P \<Longrightarrow>
   continues (slice_bind P w a n err idx m vs assoc sh) = Some (w', it', e') \<Longrightarrow>
   it' = of_nat (glen vs)"
  unfolding slice_bind_def by (auto dest: call_slice_bind_it)

lemma with_cfg_it:
  "continues (with_cfg w1 r g) = Some x \<Longrightarrow> \<exists>c. Stmt_Cfg w1 r = Some c \<and> continues (g c) = Some x"
  by (auto simp: with_cfg_def split: option.splits)

lemma invalid_param_it: "continues (invalid_param w it b) = Some x \<Longrightarrow> False"
  by (simp add: invalid_param_def)

lemmas it_dests = scalar_bind_it ptr_bind_it nil_bind_ignored_it nil_bind_assigned_it
  call_bind_it then_iterations_it

lemma bind_bytes_it:
  assumes "reports_batch_length P"
    and "continues (bind_bytes P r a assoc n w it err vs) = Some (w', it', e')"
  shows "it' = (case batch_len (Stmt_Cfg w r) (Num (PNumSlice KUint8 vs)) of
                  None \<Rightarrow> it | Some n \<Rightarrow> of_nat n)"
proof -
  from assms(2) obtain c where c: "Stmt_Cfg w r = Some c"
    and k: "continues (if byteSlice c = U8
       then slice_bind P w a n err (IdxNumSlice KUint8) MBind vs assoc False
       else (case binPool w of
               PoolBndBin \<Rightarrow> scalar_bind P w a n it IdxBin MBind (gval vs) []
             | PoolBndLob \<Rightarrow>
                 (if vs = None then nil_bind_ignored P w r n it err SQLT_BLOB
                  else (let w1 = set_bnd w a n (Bnd IdxBin None)
                        in with_cfg w1 r (\<lambda>c2.
                             call_bind P w1 it
                               (CBndBind IdxBin MBindReader (Suc n) (gval vs)
                                  [IntV (int (lobBufferSize c2)), SqltV SQLT_BLOB]))))
             | PoolOther \<Rightarrow> Panicked w AwaitedBndBin)) = Some (w', it', e')"
    unfolding bind_bytes_def by (auto dest!: with_cfg_it)
  show ?thesis
  proof (cases "byteSlice c = U8")
    case True
    with k c slice_bind_it[OF assms(1)] show ?thesis by auto
  next
    case False
    with k c show ?thesis
      by (auto simp: Let_def split: binPoolType.splits if_splits dest!: with_cfg_it dest: it_dests)
  qed
qed

lemma bind_num_it:
  assumes "reports_batch_length P"
    and "continues (bind_num P r a assoc n w it err p) = Some (w', it', e')"
  shows "it' = (case batch_len (Stmt_Cfg w r) (Num p) of None \<Rightarrow> it | Some n \<Rightarrow> of_nat n)"
  using assms(2) slice_bind_it[OF assms(1)] bind_bytes_it[OF assms(1)]
  by (cases p)
     (auto simp: Let_def split: if_splits
        dest!: with_cfg_it then_hasPtrBind_it invalid_param_it dest: it_dests)

lemma bind_time_it:
  assumes "reports_batch_length P"
    and "continues (bind_time P r a assoc n w it err p) = Some (w', it', e')"
  shows "it' = (case batch_len (Stmt_Cfg w r) (Tm p) of None \<Rightarrow> it | Some n \<Rightarrow> of_nat n)"
  using assms(2) slice_bind_it[OF assms(1)]
  by (cases p)
     (auto simp: Let_def split: if_splits option.splits
        dest!: with_cfg_it then_hasPtrBind_it invalid_param_it dest: it_dests)

lemma bind_text_it:
  assumes "reports_batch_length P"
    and "continues (bind_text P r a assoc n w it err p) = Some (w', it', e')"
  shows "it' = (case batch_len (Stmt_Cfg w r) (Txt p) of None \<Rightarrow> it | Some n \<Rightarrow> of_nat n)"
  using assms(2) slice_bind_it[OF assms(1)]
  by (cases p)
     (auto simp: Let_def split: if_splits option.splits
        dest!: with_cfg_it then_hasPtrBind_it invalid_param_it dest: it_dests)

lemma call_slice_gval_it:
  "reports_batch_length P \<Longrightarrow>
   continues (call_slice_bind P w0 err sh (CBndBind idx m pos (gval vs) ex)) = Some (w', it', e') \<Longrightarrow>
   it' = of_nat (glen vs)"
  by (auto dest: call_slice_bind_it)

lemma bind_bin_it:
  assumes "reports_batch_length P"
    and "continues (bind_bin P r a assoc n w it err p) = Some (w', it', e')"
  shows "it' = (case batch_len (Stmt_Cfg w r) (Bn p) of None \<Rightarrow> it | Some n \<Rightarrow> of_nat n)"
  using assms(2) slice_bind_it[OF assms(1)] call_slice_gval_it[OF assms(1)]
  by (cases p)
     (auto simp: Let_def split: if_splits option.splits
        dest!: with_cfg_it then_hasPtrBind_it invalid_param_it dest: it_dests)

lemma bind_param_it:
  assumes "reports_batch_length P"
    and "continues (bind_param P r a assoc n w it err p) = Some (w', it', e')"
  shows "it' = (case batch_len (Stmt_Cfg w r) p of None \<Rightarrow> it | Some n \<Rightarrow> of_nat n)"
  using assms
  by (cases p) (auto dest: bind_num_it bind_time_it bind_text_it bind_bin_it)

lemma step_ok_frame: "step_ok r w f st \<Longrightarrow> bind_frame r w (step_world st)"
  by (simp add: step_ok_def)

lemma step_ok_flag:
  "step_ok r w f (Continue w' it' e') \<Longrightarrow> hasPtrBind (stmts w' r) = (hasPtrBind (stmts w r) \<or> f)"
  by (simp add: step_ok_def)

lemma bind_loop_frame:
  "bind_frame r w (step_world (bind_loop P r a assoc n ps w it err))"
proof (induction ps arbitrary: n w it err)
  case Nil
  then show ?case by simp
next
  case (Cons p ps)
  note ok = bind_param_ok[of r w p P a assoc n it err]
  show ?case
  proof (cases "bind_param P r a assoc n w it err p")
    case (Continue w1 it1 err1)
    with ok have "bind_frame r w w1" by (auto dest: step_ok_frame)
    from bind_frame_trans[OF this Cons.IH[of w1 "Suc n" it1 err1]] Continue
    show ?thesis by simp
  next
    case (ReturnNow w1 it1 err1)
    with ok show ?thesis by (auto dest: step_ok_frame)
  next
    case (Panicked w1 v)
    with ok show ?thesis by (auto dest: step_ok_frame)
  qed
qed

lemma bind_loop_flag:
  "bind_loop P r a assoc n ps w it err = Continue w' it' err' \<Longrightarrow>
     hasPtrBind (stmts w' r) = (hasPtrBind (stmts w r) \<or> (\<exists>p \<in> set ps. sets_hasPtrBind p))"
proof (induction ps arbitrary: n w it err)
  case Nil
  then show ?case by simp
next
  case (Cons p ps)
  note ok = bind_param_ok[of r w p P a assoc n it err]
  show ?case
  proof (cases "bind_param P r a assoc n w it err p")
    case (Continue w1 it1 err1)
    with ok have 1: "hasPtrBind (stmts w1 r) = (hasPtrBind (stmts w r) \<or> sets_hasPtrBind p)"
      by (auto dest: step_ok_flag)
    from Cons.prems Continue have "bind_loop P r a assoc (Suc n) ps w1 it1 err1 = Continue w' it' err'"
      by simp
    from Cons.IH[OF this] 1 show ?thesis by auto
  next
    case (ReturnNow w1 it1 err1)
    with Cons.prems show ?thesis by simp
  next
    case (Panicked w1 v)
    with Cons.prems show ?thesis by simp
  qed
qed

lemma batches_simps [simp]:
  "batches cfg [] = []"
  "batches cfg (p # ps) = (case batch_len cfg p of None \<Rightarrow> batches cfg ps | Some n \<Rightarrow> n # batches cfg ps)"
  by (simp_all add: batches_def List.map_filter_simps split: option.splits)

lemma bind_loop_it:
  assumes "reports_batch_length P"
  shows "bind_loop P r a assoc n ps w it err = Continue w' it' err' \<Longrightarrow>
     it' = (if batches (Stmt_Cfg w r) ps = [] then it else of_nat (last (batches (Stmt_Cfg w r) ps)))"
proof (induction ps arbitrary: n w it err)
  case Nil
  then show ?case by simp
next
  case (Cons p ps)
  note ok = bind_param_ok[of r w p P a assoc n it err]
  show ?case
  proof (cases "bind_param P r a assoc n w it err p")
    case (Continue w1 it1 err1)
    with ok have "bind_frame r w w1" by (auto dest: step_ok_frame)
    then have c: "Stmt_Cfg w1 r = Stmt_Cfg w r" by (rule bind_frame_Cfg)
    from Continue have "continues (bind_param P r a assoc n w it err p) = Some (w1, it1, err1)" by simp
    from bind_param_it[OF assms this]
    have 1: "it1 = (case batch_len (Stmt_Cfg w r) p of None \<Rightarrow> it | Some n \<Rightarrow> of_nat n)" .
    from Cons.prems Continue have "bind_loop P r a assoc (Suc n) ps w1 it1 err1 = Continue w' it' err'"
      by simp
    from Cons.IH[OF this] 1 c show ?thesis by (auto split: option.splits)
  next
    case (ReturnNow w1 it1 err1)
    with Cons.prems show ?thesis by simp
  next
    case (Panicked w1 v)
    with Cons.prems show ?thesis by simp
  qed
qed

lemma bind_loop_error:
  "bind_loop P r a assoc n ps w it err = ReturnNow w' it' err' \<Longrightarrow> err' \<noteq> None"
proof (induction ps arbitrary: n w it err)
  case Nil
  then show ?case by simp
next
  case (Cons p ps)
  note ok = bind_param_ok[of r w p P a assoc n it err]
  show ?case
  proof (cases "bind_param P r a assoc n w it err p")
    case (Continue w1 it1 err1)
    with Cons.prems have "bind_loop P r a assoc (Suc n) ps w1 it1 err1 = ReturnNow w' it' err'"
      by simp
    from Cons.IH[OF this] show ?thesis .
  next
    case (ReturnNow w1 it1 err1)
    with Cons.prems ok show ?thesis by (auto dest: step_ok_error)
  next
    case (Panicked w1 v)
    with Cons.prems show ?thesis by simp
  qed
qed

lemma local_bnds_stmts:
  "local_bnds w r len = (w1, a) \<Longrightarrow> stmts w1 = stmts w \<and> Stmt_Cfg w1 r = Stmt_Cfg w r"
  by (auto simp: local_bnds_def Stmt_Cfg_def Let_def split: if_splits option.splits)

lemma Stmt_bind_Continue:
  assumes "Stmt_bind P w r params assoc = Return w' (it, None)" and "params \<noteq> []"
  shows "\<exists>w1 a w2. local_bnds w r (length params) = (w1, a)
           \<and> bind_loop P r a assoc 0 params w1 1 None = Continue w2 it None
           \<and> w' = w2\<lparr>stmts := (stmts w2)(r := (stmts w2 r)\<lparr>bnds := Some (a, length params)\<rparr>)\<rparr>"
proof -
  obtain w1 a where l: "local_bnds w r (length params) = (w1, a)"
    by (cases "local_bnds w r (length params)")
  show ?thesis
  proof (cases "bind_loop P r a assoc 0 params w1 1 None")
    case (Continue w2 it2 err2)
    with assms l show ?thesis by (auto simp: Stmt_bind_def)
  next
    case (ReturnNow w2 it2 err2)
    from bind_loop_error[OF this] assms l ReturnNow show ?thesis
      by (auto simp: Stmt_bind_def)
  next
    case (Panicked w2 v)
    with assms l show ?thesis by (auto simp: Stmt_bind_def)
  qed
qed

lemma returned_Some: "returned x = Some v \<Longrightarrow> x = Return (world_of x) v"
  by (cases x) auto

lemma panicked_Some: "panicked x = Some v \<Longrightarrow> x = Panic (world_of x) v"
  by (cases x) auto

lemma bind_frame_flag: "bind_frame r w w' \<Longrightarrow> hasPtrBind (stmts w r) \<Longrightarrow> hasPtrBind (stmts w' r)"
  by (simp add: bind_frame_def)

lemma Stmt_bind_keeps_flag:
  assumes "hasPtrBind (stmts w r)"
  shows "hasPtrBind (stmts (world_of (Stmt_bind P w r params assoc)) r)"
proof (cases "params = []")
  case True
  with assms show ?thesis by (simp add: Stmt_bind_def)
next
  case False
  obtain w1 a where l: "local_bnds w r (length params) = (w1, a)"
    by (cases "local_bnds w r (length params)")
  from local_bnds_stmts[OF l] assms have 1: "hasPtrBind (stmts w1 r)" by simp
  let ?st = "bind_loop P r a assoc 0 params w1 1 None"
  have 2: "hasPtrBind (stmts (step_world ?st) r)"
    using bind_frame_flag[OF bind_loop_frame[of r w1 P a assoc 0 params 1 None] 1] .
  show ?thesis
    using False l 2 by (cases ?st) (simp_all add: Stmt_bind_def)
qed


lemma counting_reports: "reports_batch_length counting"
  by (simp add: reports_batch_length_def counting_def)

lemmas bind_eval = Stmt_bind_def local_bnds_def slice_cap_def scalar_bind_def call_bind_def
  ptr_bind_def then_hasPtrBind_def call_slice_bind_def slice_bind_def then_iterations_def
  setNilBind_def nil_bind_ignored_def nil_bind_assigned_def with_cfg_def invalid_param_def
  Stmt_Cfg_def set_bnd_def ask_def Let_def gval_def glen_def runes_def lob_sqlt_def bind_bytes_def
  slice_elems_def

subsection \<open>Auxiliary facts about Stmt.exe\<close>

lemma execute_modes_simps [simp]:
  "execute_modes [] = []"
  "execute_modes (xs @ ys) = execute_modes xs @ execute_modes ys"
  "execute_modes ((c, rp) # xs) = (case call_mode c of None \<Rightarrow> execute_modes xs | Some m \<Rightarrow> m # execute_modes xs)"
  by (simp_all add: execute_modes_def List.map_filter_simps List.map_filter_def split: option.splits)

lemma calm_refl [simp]: "calm r w w"
  by (simp add: calm_def)

lemma calm_trans:
  assumes "calm r w w1" and "calm r w1 w2"
  shows "calm r w w2"
proof -
  from assms(1) obtain seg1 where 1: "trace w1 = trace w @ seg1" "execute_modes seg1 = []"
    by (auto simp: calm_def)
  from assms(2) obtain seg2 where 2: "trace w2 = trace w1 @ seg2" "execute_modes seg2 = []"
    by (auto simp: calm_def)
  have "trace w2 = trace w @ (seg1 @ seg2) \<and> execute_modes (seg1 @ seg2) = []"
    using 1 2 by simp
  then have "\<exists>seg. trace w2 = trace w @ seg \<and> execute_modes seg = []" by blast
  with assms show ?thesis
    unfolding calm_def by simp
qed

lemma calm_Cfg: "calm r w w' \<Longrightarrow> Stmt_Cfg w' r = Stmt_Cfg w r"
  by (rule Stmt_Cfg_cong) (auto simp: calm_def)

lemma calm_rule:
  assumes "calm r w w'"
  shows "auto_commit_rule w' r = auto_commit_rule w r"
proof -
  have c: "Stmt_Cfg w' r = Stmt_Cfg w r" by (rule calm_Cfg[OF assms])
  have s: "stmt_ses (stmts w' r) = stmt_ses (stmts w r)" "sess w' = sess w"
    using assms by (auto simp: calm_def)
  show ?thesis unfolding auto_commit_rule_def c s by (rule refl)
qed

lemma calm_env: "calm r w w' \<Longrightarrow> Stmt_env w' r = Stmt_env w r"
  by (auto simp: calm_def Stmt_env_def split: option.splits)

lemma bind_calls_no_execute:
  "list_all is_bind_call (map fst seg) \<Longrightarrow> execute_modes seg = []"
proof (induction seg)
  case Nil
  then show ?case by simp
next
  case (Cons x seg)
  obtain c rp where x: "x = (c, rp)" by (cases x)
  with Cons show ?case by (cases c) auto
qed

lemma bind_frame_calm: "bind_frame r w w' \<Longrightarrow> calm r w w'"
  unfolding calm_def bind_frame_def
  by (auto dest: flagless_fields bind_calls_no_execute)

lemma calm_ask: "call_mode c = None \<Longrightarrow> calm r w (fst (ask P w c))"
  by (simp add: calm_def ask_def Let_def)

lemma Stmt_bind_calm: "calm r w (world_of (Stmt_bind P w r params assoc))"
proof (cases "params = []")
  case True
  then show ?thesis by (simp add: Stmt_bind_def)
next
  case False
  obtain w1 a where l: "local_bnds w r (length params) = (w1, a)"
    by (cases "local_bnds w r (length params)")
  have c1: "calm r w w1"
    using l by (auto simp: local_bnds_def calm_def split: if_splits option.splits)
  have c2: "calm r w1 (step_world (bind_loop P r a assoc 0 params w1 1 None))"
    by (rule bind_frame_calm, rule bind_loop_frame)
  show ?thesis
  proof (cases "bind_loop P r a assoc 0 params w1 1 None")
    case (Continue w2 it err)
    with c2 have "calm r w1 w2" by simp
    then have "calm r w1 (w2\<lparr>stmts := (stmts w2)(r := (stmts w2 r)\<lparr>bnds := Some (a, length params)\<rparr>)\<rparr>)"
      by (simp add: calm_def)
    from calm_trans[OF c1 this] False l Continue show ?thesis
      by (simp add: Stmt_bind_def)
  next
    case (ReturnNow w2 it err)
    with c2 have "calm r w1 w2" by simp
    from calm_trans[OF c1 this] False l ReturnNow show ?thesis
      by (simp add: Stmt_bind_def)
  next
    case (Panicked w2 v)
    with c2 have "calm r w1 w2" by simp
    from calm_trans[OF c1 this] False l Panicked show ?thesis
      by (simp add: Stmt_bind_def)
  qed
qed

lemma Stmt_setAttr_calm: "calm r w (world_of (Stmt_setAttr P w r v at))"
  by (auto simp: Stmt_setAttr_def ask_def Let_def calm_def split: option.splits)

lemma Stmt_setPrefetchSize_calm: "calm r w (world_of (Stmt_setPrefetchSize P w r))"
proof -
  have a: "\<And>v at. calm r w (world_of (case Stmt_setAttr P w r v at of
                   Return w1 (Some err) \<Rightarrow> Return w1 (Some (errE err))
                 | Return w1 None \<Rightarrow> Return w1 None
                 | Panic w1 v \<Rightarrow> Panic w1 v))"
    subgoal for v at
      using Stmt_setAttr_calm[of r w P v at]
      by (cases "Stmt_setAttr P w r v at") (auto split: option.splits)
    done
  show ?thesis
    unfolding Stmt_setPrefetchSize_def
    by (auto simp: a split: option.splits)
qed

lemma Stmt_attr_calm: "calm r w (world_of (Stmt_attr P w r at))"
  by (auto simp: Stmt_attr_def ask_def Let_def calm_def split: option.splits)

lemma exe_params_world: "world_of (exe_params w r params) = w"
  by (auto simp: exe_params_def Let_def split: option.splits)

lemma copy_back_calm: "calm r w (copy_back w b v)"
  by (cases b) (auto simp: copy_back_def calm_def split: option.splits)

lemma setPtrs_loop_calm: "calm r w (world_of (setPtrs_loop P w n bs))"
proof (induction P w n bs rule: setPtrs_loop.induct)
  case (1 P w n)
  then show ?case by simp
next
  case (2 P w n bs)
  then show ?case by simp
next
  case (3 P w n b bs)
  obtain w1 rp where a: "ask P w (CBndSetPtr n b) = (w1, rp)" by (cases "ask P w (CBndSetPtr n b)")
  have c1: "calm r w w1" using calm_ask[of "CBndSetPtr n b" r w P] a by simp
  show ?case
  proof (cases "reply_panic rp")
    case (Some v)
    with a c1 show ?thesis by simp
  next
    case None
    show ?thesis
    proof (cases "reply_err rp")
      case (Some e)
      with None a c1 show ?thesis by simp
    next
      case N: None
      have "calm r w1 (copy_back w1 b (reply_value rp))" by (rule copy_back_calm)
      from calm_trans[OF c1 calm_trans[OF this 3[OF a[symmetric] refl None N]]] a None N
      show ?thesis by simp
    qed
  qed
qed

lemma Stmt_setBindPtrs_calm: "calm r w (world_of (Stmt_setBindPtrs P w r))"
  unfolding Stmt_setBindPtrs_def by (rule setPtrs_loop_calm)

lemma grows_refl [simp]: "grows [] w w"
  by (simp add: grows_def)

lemma grows_trans:
  assumes "grows a w w1" and "grows b w1 w2"
  shows "grows (a @ b) w w2"
proof -
  from assms(1) obtain seg1 where 1: "trace w1 = trace w @ seg1" "execute_modes seg1 = a"
    by (auto simp: grows_def)
  from assms(2) obtain seg2 where 2: "trace w2 = trace w1 @ seg2" "execute_modes seg2 = b"
    by (auto simp: grows_def)
  have "trace w2 = trace w @ (seg1 @ seg2) \<and> execute_modes (seg1 @ seg2) = a @ b"
    using 1 2 by simp
  then show ?thesis unfolding grows_def by blast
qed

lemma calm_grows: "calm r w w' \<Longrightarrow> grows [] w w'"
  by (auto simp: calm_def grows_def)

lemma grows_ask: "grows (case call_mode c of None \<Rightarrow> [] | Some m \<Rightarrow> [m]) w (fst (ask P w c))"
  by (simp add: grows_def ask_def Let_def split: option.splits)

lemma exe_mode_selected: "exe_mode w r = Some m \<Longrightarrow> m = selected_mode w r"
  by (auto simp: exe_mode_def selected_mode_def auto_commit_rule_def Let_def
      split: option.splits if_splits)

lemma exe_executed_phase:
  "(case returned (exe_executed P w r it) of
         None \<Rightarrow> True
       | Some (Inl res) \<Rightarrow> snd (snd res) \<noteq> None
       | Some (Inr y) \<Rightarrow> grows [selected_mode w r] w (world_of (exe_executed P w r it)))
   \<and> (grows [] w (world_of (exe_executed P w r it))
        \<or> grows [selected_mode w r] w (world_of (exe_executed P w r it)))"
proof (cases "exe_mode w r")
  case None
  then show ?thesis by (simp add: exe_executed_def)
next
  case (Some m)
  then have m: "m = selected_mode w r" by (rule exe_mode_selected)
  show ?thesis
  proof (cases "stmt_ses (stmts w r)")
    case None
    with Some show ?thesis by (simp add: exe_executed_def)
  next
    case S: (Some s)
    show ?thesis
    proof (cases "Stmt_env w r")
      case None
      with Some S show ?thesis by (simp add: exe_executed_def)
    next
      case E: (Some e)
      let ?c = "CStmtExecute (ocisvcctx (sess w s)) (ocistmt (stmts w r)) it m"
      obtain w1 rp where a: "ask P w ?c = (w1, rp)" by (cases "ask P w ?c")
      have g1: "grows [selected_mode w r] w w1"
        using grows_ask[of ?c w P] a m by simp
      have w1: "w1 = w\<lparr>trace := trace w @ [(?c, rp)]\<rparr>" using a by (simp add: ask_world)
      have ge: "\<And>w2 re. ask P w1 (COciError e) = (w2, re) \<Longrightarrow> grows [selected_mode w r] w w2"
        subgoal for w2 re
          using grows_trans[OF g1 grows_ask[of "COciError e" w1 P]] by simp
        done
      have ga: "grows [selected_mode w r] w (world_of (Stmt_attr P w1 r OCI_ATTR_UB8_ROW_COUNT))"
        using grows_trans[OF g1 calm_grows[OF Stmt_attr_calm[of r w1 P OCI_ATTR_UB8_ROW_COUNT]]]
        by simp
      show ?thesis
        using Some S E a g1 ge ga
        unfolding exe_executed_def
        by (cases "Stmt_attr P w1 r OCI_ATTR_UB8_ROW_COUNT")
           (auto simp: Let_def split: prod.splits sum.splits)
    qed
  qed
qed

lemma selected_mode_calm: "calm r w w' \<Longrightarrow> selected_mode w' r = selected_mode w r"
  by (simp add: selected_mode_def calm_rule)

lemma exe_upto_rows_phase:
  "(case returned (exe_upto_rows P w r params assoc) of
         None \<Rightarrow> True
       | Some (Inl res) \<Rightarrow> snd (snd res) \<noteq> None
       | Some (Inr y) \<Rightarrow> grows [selected_mode w r] w (world_of (exe_upto_rows P w r params assoc)))
   \<and> (grows [] w (world_of (exe_upto_rows P w r params assoc))
        \<or> grows [selected_mode w r] w (world_of (exe_upto_rows P w r params assoc)))"
proof (cases "Stmt_checkClosed w r")
  case (Some err)
  then show ?thesis by (simp add: exe_upto_rows_def)
next
  case None
  note open_ = None
  show ?thesis
  proof (cases "exe_params w r params")
    case (Panic w1 v)
    with exe_params_world[of w r params] have "w1 = w" by simp
    with open_ Panic show ?thesis by (simp add: exe_upto_rows_def)
  next
    case (Return w1 ps)
    with exe_params_world[of w r params] have w1: "w1 = w" by simp
    note cb = Stmt_bind_calm[of r w P ps assoc]
    show ?thesis
    proof (cases "Stmt_bind P w r ps assoc")
      case (Panic w2 v)
      with cb have "grows [] w w2" by (auto dest: calm_grows)
      with open_ Return w1 Panic show ?thesis by (simp add: exe_upto_rows_def)
    next
      case B: (Return w2 res)
      obtain it eo where res: "res = (it, eo)" by (cases res)
      from cb B have c2: "calm r w w2" by simp
      show ?thesis
      proof (cases eo)
        case (Some err)
        with open_ Return w1 B res calm_grows[OF c2] show ?thesis
          by (simp add: exe_upto_rows_def)
      next
        case None
        note cs = Stmt_setPrefetchSize_calm[of r w2 P]
        show ?thesis
        proof (cases "Stmt_setPrefetchSize P w2 r")
          case (Panic w3 v)
          with cs have "calm r w2 w3" by simp
          from calm_grows[OF calm_trans[OF c2 this]] open_ Return w1 B res None Panic
          show ?thesis by (simp add: exe_upto_rows_def)
        next
          case S: (Return w3 so)
          with cs have "calm r w2 w3" by simp
          note c3 = calm_trans[OF c2 this]
          show ?thesis
          proof (cases so)
            case (Some err)
            with calm_grows[OF c3] open_ Return w1 B res None S show ?thesis
              by (simp add: exe_upto_rows_def)
          next
            case N: None
            have eq: "exe_upto_rows P w r params assoc = exe_executed P w3 r it"
              using open_ Return w1 B res None S N by (simp add: exe_upto_rows_def)
            note ph = exe_executed_phase[where P=P and w=w3 and r=r and it=it]
            have sm: "selected_mode w3 r = selected_mode w r" by (rule selected_mode_calm[OF c3])
            have g0: "grows [] w w3" by (rule calm_grows[OF c3])
            have g1: "\<And>W. grows [] w3 W \<Longrightarrow> grows [] w W"
              using grows_trans[OF g0] by simp
            have g2: "\<And>W. grows [selected_mode w r] w3 W \<Longrightarrow> grows [selected_mode w r] w W"
              using grows_trans[OF g0] by simp
            show ?thesis
              using ph g1 g2 unfolding eq sm
              by (auto split: option.splits sum.splits)
          qed
        qed
      qed
    qed
  qed
qed

lemma Stmt_exe_modes:
  "\<exists>w' res. Stmt_exe P w (Some r) params assoc = Return w' res
     \<and> (grows [] w w' \<and> snd (snd res) \<noteq> None \<or> grows [selected_mode w r] w w')"
proof -
  let ?w0 = "w\<lparr>mem := (mem w)(LastInsertIdLoc := IntV 0)\<rparr>"
  let ?X = "exe_upto_rows P ?w0 r params assoc"
  have c0: "calm r w ?w0" by (simp add: calm_def)
  have sm: "selected_mode ?w0 r = selected_mode w r" by (rule selected_mode_calm[OF c0])
  have g0: "grows [] w ?w0" by (rule calm_grows[OF c0])
  have g1: "\<And>W. grows [] ?w0 W \<Longrightarrow> grows [] w W"
    using grows_trans[OF g0] by simp
  have g2: "\<And>W. grows [selected_mode w r] ?w0 W \<Longrightarrow> grows [selected_mode w r] w W"
    using grows_trans[OF g0] by simp
  note ph = exe_upto_rows_phase[where P=P and w="?w0" and r=r and params=params and assoc=assoc, unfolded sm]
  show ?thesis
  proof (cases ?X)
    case (Panic w1 v)
    with ph g1 g2 show ?thesis
      by (auto simp: Stmt_exe_def errR_def)
  next
    case (Return w1 y)
    show ?thesis
    proof (cases y)
      case (Inl res)
      with Return ph g1 g2 show ?thesis
        by (auto simp: Stmt_exe_def)
    next
      case (Inr z)
      obtain ra hp where z: "z = (ra, hp)" by (cases z)
      from Return Inr ph have g: "grows [selected_mode w r] ?w0 w1" by simp
      show ?thesis
      proof (cases hp)
        case False
        with Return Inr z g2[OF g] show ?thesis by (simp add: Stmt_exe_def)
      next
        case True
        have "grows [selected_mode w r] ?w0 (world_of (Stmt_setBindPtrs P w1 r))"
          using grows_trans[OF g calm_grows[OF Stmt_setBindPtrs_calm[of r w1 P]]] by simp
        from g2[OF this] Return Inr z True show ?thesis
          by (cases "Stmt_setBindPtrs P w1 r") (auto simp: Stmt_exe_def split: option.splits)
      qed
    qed
  qed
qed

lemma exe_never: "panicked (Stmt_exe P w stmt params assoc) = None"
  by (auto simp: Stmt_exe_def split: option.splits outcome.splits sum.splits prod.splits)

lemma drop_never: "panicked x = None \<Longrightarrow> panicked (drop_lastInsertId x) = None"
  by (cases x) (auto simp: drop_lastInsertId_def)

lemma qry_never: "panicked (Stmt_qry P w stmt params) = None"
  by (auto simp: Stmt_qry_def Let_def split: option.splits outcome.splits sum.splits prod.splits)

lemma openses_never: "panicked (Srv_OpenSes P w srv cfg) = None"
  by (auto simp: Srv_OpenSes_def split: outcome.splits)

lemmas exe_eval = Stmt_exe_def exe_upto_rows_def exe_params_def exe_executed_def exe_mode_def
  Stmt_checkClosed_def Stmt_env_def Stmt_setPrefetchSize_def Stmt_setAttr_def Stmt_attr_def
  Stmt_setBindPtrs_def copy_back_def OCI_ERROR_def OCI_NO_DATA_def OCI_STMT_SELECT_def
  OCI_STMT_UPDATE_def OCI_STMT_DELETE_def OCI_STMT_INSERT_def errR_def errE_def er_def
  reply_ociError_def

lemmas world0_defs =
  world0_def closed_env_def closed_srv_def closed_ses_def closed_stmt_def zero_StmtCfg_def

subsection \<open>Auxiliary facts about the identity capture of Stmt.exe\<close>

lemma bind_loop_snoc:
  "bind_loop P r a assoc n (qs @ [p]) w it err = Continue w' it' err' \<Longrightarrow>
     \<exists>w1 it1 e1. bind_loop P r a assoc n qs w it err = Continue w1 it1 e1
        \<and> bind_param P r a assoc (n + length qs) w1 it1 e1 p = Continue w' it' err'"
proof (induction qs arbitrary: n w it err)
  case Nil
  then show ?case by (cases "bind_param P r a assoc n w it err p") auto
next
  case (Cons q qs)
  show ?case
  proof (cases "bind_param P r a assoc n w it err q")
    case (Continue w1 it1 e1)
    with Cons.prems have "bind_loop P r a assoc (Suc n) (qs @ [p]) w1 it1 e1 = Continue w' it' err'"
      by simp
    from Cons.IH[OF this] Continue show ?thesis by simp
  next
    case (ReturnNow w1 it1 e1)
    with Cons.prems show ?thesis by simp
  next
    case (Panicked w1 v)
    with Cons.prems show ?thesis by simp
  qed
qed

lemma ptr_bind_installs:
  "ptr_bind P w r a k it idx l ex = Continue w' it' err' \<Longrightarrow>
     arrays w' a = (arrays w a)[k := Some (Bnd idx l)] \<and> hasPtrBind (stmts w' r)
     \<and> (\<exists>rb. trace w' = trace w @ [(CBndBind idx MBind (Suc k) (PtrV l) ex, rb)])"
  by (cases "ask P (set_bnd w a k (Bnd idx l)) (CBndBind idx MBind (Suc k) (PtrV l) ex)")
     (auto simp: ptr_bind_def then_hasPtrBind_def call_bind_def set_bnd_def ask_def Let_def
        split: option.splits)

lemma bind_frame_length: "bind_frame r w w' \<Longrightarrow> length (arrays w' x) = length (arrays w x)"
  by (simp add: bind_frame_def)

lemma bind_frame_trace: "bind_frame r w w' \<Longrightarrow> \<exists>seg. trace w' = trace w @ seg"
  by (auto simp: bind_frame_def)

lemma calm_trace: "calm r w w' \<Longrightarrow> \<exists>seg. trace w' = trace w @ seg"
  by (auto simp: calm_def)

lemma local_bnds_cap:
  "0 < len \<Longrightarrow> local_bnds w r len = (w1, a) \<Longrightarrow>
     len \<le> length (arrays w1 a) \<and> trace w1 = trace w"
  by (auto simp: local_bnds_def slice_cap_def split: if_splits option.splits)

lemma take_last_nth:
  "0 < len \<Longrightarrow> len \<le> length xs \<Longrightarrow> take len xs = take (len - 1) xs @ [xs ! (len - 1)]"
  by (cases len) (simp_all add: take_Suc_conv_app_nth)

lemma Stmt_bind_last_ptr:
  assumes ok: "Stmt_bind P w r (qs @ [Num (PNumPtr k l)]) assoc = Return w' (it, None)"
  shows "hasPtrBind (stmts w' r)
     \<and> (\<exists>front. slice_elems w' (bnds (stmts w' r)) = front @ [Some (Bnd (IdxNumPtr k) l)]
           \<and> length front = length qs)
     \<and> (\<exists>seg rb. trace w' = trace w @ seg
           @ [(CBndBind (IdxNumPtr k) MBind (Suc (length qs)) (PtrV l) [], rb)])"
proof -
  let ?ps = "qs @ [Num (PNumPtr k l)]"
  have ne: "?ps \<noteq> []" by simp
  from Stmt_bind_Continue[OF ok ne] obtain w1 a w2 where
    l: "local_bnds w r (length ?ps) = (w1, a)"
    and b: "bind_loop P r a assoc 0 ?ps w1 1 None = Continue w2 it None"
    and w': "w' = w2\<lparr>stmts := (stmts w2)(r := (stmts w2 r)\<lparr>bnds := Some (a, length ?ps)\<rparr>)\<rparr>"
    by blast
  from bind_loop_snoc[OF b] obtain w3 it3 e3 where
    f: "bind_loop P r a assoc 0 qs w1 1 None = Continue w3 it3 e3"
    and p: "bind_param P r a assoc (0 + length qs) w3 it3 e3 (Num (PNumPtr k l)) = Continue w2 it None"
    by blast
  from p have pb: "ptr_bind P w3 r a (length qs) it3 (IdxNumPtr k) l [] = Continue w2 it None"
    by simp
  note inst = ptr_bind_installs[OF pb]
  have cap: "length ?ps \<le> length (arrays w1 a)" and t1: "trace w1 = trace w"
    using local_bnds_cap[OF _ l] by simp_all
  have fr: "bind_frame r w1 w3" using bind_loop_frame[of r w1 P a assoc 0 qs 1 None] f by simp
  then have len3: "length (arrays w3 a) = length (arrays w1 a)" by (rule bind_frame_length)
  from bind_frame_trace[OF fr] obtain seg where t3: "trace w3 = trace w1 @ seg" by blast
  from inst obtain rb where
    t2: "trace w2 = trace w3 @ [(CBndBind (IdxNumPtr k) MBind (Suc (length qs)) (PtrV l) [], rb)]"
    by blast
  have len2: "length (arrays w2 a) = length (arrays w1 a)" using inst len3 by simp
  have nth: "arrays w2 a ! length qs = Some (Bnd (IdxNumPtr k) l)"
    using inst cap len3 by simp
  have "slice_elems w' (bnds (stmts w' r)) = take (length ?ps) (arrays w2 a)"
    using w' by (simp add: slice_elems_def)
  also have "\<dots> = take (length ?ps - 1) (arrays w2 a) @ [arrays w2 a ! (length ?ps - 1)]"
    using cap len2 by (intro take_last_nth) simp_all
  finally have se: "slice_elems w' (bnds (stmts w' r))
      = take (length qs) (arrays w2 a) @ [Some (Bnd (IdxNumPtr k) l)]"
    using nth by simp
  have lf: "length (take (length qs) (arrays w2 a)) = length qs"
    using cap len2 by simp
  have tr: "trace w' = trace w @ seg
           @ [(CBndBind (IdxNumPtr k) MBind (Suc (length qs)) (PtrV l) [], rb)]"
    using w' t1 t2 t3 by simp
  from se lf have "\<exists>front. slice_elems w' (bnds (stmts w' r)) = front @ [Some (Bnd (IdxNumPtr k) l)]
           \<and> length front = length qs" by blast
  moreover from tr have "\<exists>seg rb. trace w' = trace w @ seg
           @ [(CBndBind (IdxNumPtr k) MBind (Suc (length qs)) (PtrV l) [], rb)]" by blast
  moreover have "hasPtrBind (stmts w' r)" using inst w' by simp
  ultimately show ?thesis by blast
qed

lemma setPtrs_loop_last:
  "setPtrs_loop P w n (front @ [Some (Bnd idx (Some L))]) = Return w' None \<Longrightarrow>
     \<exists>seg rp. trace w' = trace w @ seg @ [(CBndSetPtr (n + length front) (Bnd idx (Some L)), rp)]
          \<and> mem w' L = reply_value rp"
proof (induction front arbitrary: w n)
  case Nil
  obtain w1 rp where a: "ask P w (CBndSetPtr n (Bnd idx (Some L))) = (w1, rp)"
    by (cases "ask P w (CBndSetPtr n (Bnd idx (Some L)))")
  then have w1: "w1 = w\<lparr>trace := trace w @ [(CBndSetPtr n (Bnd idx (Some L)), rp)]\<rparr>"
    by (simp add: ask_world)
  from Nil a w1 show ?case
    by (auto simp: copy_back_def split: option.splits)
next
  case (Cons x front)
  show ?case
  proof (cases x)
    case None
    with Cons.prems show ?thesis by simp
  next
    case (Some b)
    obtain w1 rp where a: "ask P w (CBndSetPtr n b) = (w1, rp)"
      by (cases "ask P w (CBndSetPtr n b)")
    then have w1: "w1 = w\<lparr>trace := trace w @ [(CBndSetPtr n b, rp)]\<rparr>"
      by (simp add: ask_world)
    from Cons.prems Some a have
      "setPtrs_loop P (copy_back w1 b (reply_value rp)) (Suc n) (front @ [Some (Bnd idx (Some L))])
         = Return w' None"
      by (auto split: option.splits)
    from Cons.IH[OF this] obtain seg rp' where
      "trace w' = trace (copy_back w1 b (reply_value rp)) @ seg
          @ [(CBndSetPtr (Suc n + length front) (Bnd idx (Some L)), rp')]"
      "mem w' L = reply_value rp'" by blast
    moreover have "trace (copy_back w1 b (reply_value rp)) = trace w @ [(CBndSetPtr n b, rp)]"
      using w1 by (cases b) (auto simp: copy_back_def split: option.splits)
    ultimately show ?thesis by simp
  qed
qed

lemma Stmt_setAttr_keeps:
  "stmts (world_of (Stmt_setAttr P w r v at)) = stmts w
   \<and> arrays (world_of (Stmt_setAttr P w r v at)) = arrays w"
  by (auto simp: Stmt_setAttr_def ask_def Let_def split: option.splits)

lemma Stmt_setPrefetchSize_keeps:
  assumes "Stmt_setPrefetchSize P w r = Return w' res"
  shows "stmts w' = stmts w \<and> arrays w' = arrays w \<and> (\<exists>seg. trace w' = trace w @ seg)"
proof -
  have k: "\<And>v at. stmts (world_of (Stmt_setAttr P w r v at)) = stmts w
       \<and> arrays (world_of (Stmt_setAttr P w r v at)) = arrays w"
    by (rule Stmt_setAttr_keeps)
  have "stmts w' = stmts w \<and> arrays w' = arrays w"
    using assms
    unfolding Stmt_setPrefetchSize_def
    apply (cases "Stmt_Cfg w r")
     apply simp
    subgoal for cfg
      using k[of "prefetchRowCount cfg" OCI_ATTR_PREFETCH_ROWS]
        k[of "prefetchMemorySize cfg" OCI_ATTR_PREFETCH_MEMORY]
      by (cases "Stmt_setAttr P w r (prefetchRowCount cfg) OCI_ATTR_PREFETCH_ROWS";
          cases "Stmt_setAttr P w r (prefetchMemorySize cfg) OCI_ATTR_PREFETCH_MEMORY")
         (auto split: if_splits option.splits)
    done
  moreover have "\<exists>seg. trace w' = trace w @ seg"
    using calm_trace[OF Stmt_setPrefetchSize_calm[of r w P]] assms by simp
  ultimately show ?thesis by simp
qed

lemma Stmt_attr_keeps:
  "stmts (world_of (Stmt_attr P w r at)) = stmts w
   \<and> arrays (world_of (Stmt_attr P w r at)) = arrays w
   \<and> (\<exists>seg. trace (world_of (Stmt_attr P w r at)) = trace w @ seg)"
  by (auto simp: Stmt_attr_def ask_def Let_def split: option.splits)

lemma exe_executed_Inr:
  assumes "exe_executed P w r it = Return w' (Inr (rows, hp))"
  shows "stmts w' = stmts w \<and> arrays w' = arrays w \<and> hp = hasPtrBind (stmts w r)
     \<and> (\<exists>seg. trace w' = trace w @ seg)"
proof -
  from assms obtain m s e where m: "exe_mode w r = Some m" and s: "stmt_ses (stmts w r) = Some s"
    and e: "Stmt_env w r = Some e"
    by (auto simp: exe_executed_def split: option.splits)
  let ?c = "CStmtExecute (ocisvcctx (sess w s)) (ocistmt (stmts w r)) it m"
  obtain w1 rp where a: "ask P w ?c = (w1, rp)" by (cases "ask P w ?c")
  then have w1: "w1 = w\<lparr>trace := trace w @ [(?c, rp)]\<rparr>" by (simp add: ask_world)
  note k = Stmt_attr_keeps[of P w1 r OCI_ATTR_UB8_ROW_COUNT]
  from k obtain seg where sg: "trace (world_of (Stmt_attr P w1 r OCI_ATTR_UB8_ROW_COUNT)) = trace w1 @ seg"
    by blast
  show ?thesis
    using assms m s e a k sg w1
    by (cases "Stmt_attr P w1 r OCI_ATTR_UB8_ROW_COUNT")
       (auto simp: exe_executed_def Let_def ask_def split: if_splits sum.splits prod.splits)
qed

lemma exe_upto_rows_Inr:
  assumes "exe_upto_rows P w r params assoc = Return w4 (Inr (rows, hp))"
  shows "\<exists>ps w2 it w3. exe_params w r params = Return w ps
           \<and> Stmt_bind P w r ps assoc = Return w2 (it, None)
           \<and> Stmt_setPrefetchSize P w2 r = Return w3 None
           \<and> exe_executed P w3 r it = Return w4 (Inr (rows, hp))"
proof -
  from assms have c: "Stmt_checkClosed w r = None"
    by (auto simp: exe_upto_rows_def split: option.splits)
  from assms c obtain w1 ps where p: "exe_params w r params = Return w1 ps"
    by (cases "exe_params w r params") (auto simp: exe_upto_rows_def)
  with exe_params_world[of w r params] have w1: "w1 = w" by simp
  from assms c p w1 obtain w2 it where b: "Stmt_bind P w r ps assoc = Return w2 (it, None)"
    by (cases "Stmt_bind P w r ps assoc") (auto simp: exe_upto_rows_def split: option.splits)
  from assms c p w1 b obtain w3 where f: "Stmt_setPrefetchSize P w2 r = Return w3 None"
    by (cases "Stmt_setPrefetchSize P w2 r") (auto simp: exe_upto_rows_def split: option.splits)
  from assms c p w1 b f have "exe_executed P w3 r it = Return w4 (Inr (rows, hp))"
    by (simp add: exe_upto_rows_def)
  with p w1 b f show ?thesis by blast
qed

lemma exe_upto_rows_Inl:
  "exe_upto_rows P w r params assoc = Return w' (Inl res) \<Longrightarrow> snd (snd res) \<noteq> None"
  using exe_upto_rows_phase[where P=P and w=w and r=r and params=params and assoc=assoc] by simp

lemma list_update_last: "xs \<noteq> [] \<Longrightarrow> xs[length xs - Suc 0 := x] = butlast xs @ [x]"
  by (induction xs rule: rev_induct) simp_all

lemma Stmt_exe_success:
  assumes ok: "Stmt_exe P w (Some r) params assoc = Return w' (rows, ident, None)"
  shows "\<exists>w4 hp. exe_upto_rows P (w\<lparr>mem := (mem w)(LastInsertIdLoc := IntV 0)\<rparr>) r params assoc
                   = Return w4 (Inr (rows, hp))
           \<and> (hp \<longrightarrow> Stmt_setBindPtrs P w4 r = Return w' None
                      \<and> ident = mem w' LastInsertIdLoc)"
proof (cases "exe_upto_rows P (w\<lparr>mem := (mem w)(LastInsertIdLoc := IntV 0)\<rparr>) r params assoc")
  case (Panic w1 v)
  with ok show ?thesis by (simp add: Stmt_exe_def)
next
  case (Return w1 x)
  show ?thesis
  proof (cases x)
    case (Inl res)
    from Return Inl have "snd (snd res) \<noteq> None" by (simp add: exe_upto_rows_Inl)
    moreover from Return Inl ok have "res = (rows, ident, None)" by (simp add: Stmt_exe_def)
    ultimately show ?thesis by simp
  next
    case (Inr y)
    obtain ra hp where y: "y = (ra, hp)" by (cases y)
    show ?thesis
    proof (cases hp)
      case True
      from Return Inr y True ok
      have "(case Stmt_setBindPtrs P w1 r of
                Panic w2 v \<Rightarrow> Return w2 (ra, mem w2 LastInsertIdLoc, Some (errR v))
              | Return w2 (Some err) \<Rightarrow> Return w2 (ra, mem w2 LastInsertIdLoc, Some (errE err))
              | Return w2 None \<Rightarrow> Return w2 (ra, mem w2 LastInsertIdLoc, None))
            = Return w' (rows, ident, None)"
        by (simp add: Stmt_exe_def)
      then have "ra = rows \<and> Stmt_setBindPtrs P w1 r = Return w' None
                  \<and> ident = mem w' LastInsertIdLoc"
        by (cases "Stmt_setBindPtrs P w1 r") (auto split: option.splits)
      with Return Inr y show ?thesis by simp
    next
      case False
      from Return Inr y False ok have "ra = rows" by (simp add: Stmt_exe_def)
      with Return Inr y False show ?thesis by auto
    qed
  qed
qed

lemma occurs_at_Nil [simp]: "sub \<noteq> [] \<Longrightarrow> \<not> occurs_at sub [] i"
  by (auto simp: occurs_at_def)

lemma occurs_at_Cons [simp]:
  "occurs_at sub (c # cs) 0 = (take (length sub) (c # cs) = sub)"
  "occurs_at sub (c # cs) (Suc j) = occurs_at sub cs j"
  by (simp_all add: occurs_at_def)

lemma occurs_at_bound: "sub \<noteq> [] \<Longrightarrow> occurs_at sub s i \<Longrightarrow> i < length s"
  by (cases "i < length s") (auto simp: occurs_at_def)

lemma occurs_at_drop: "occurs_at sub (drop i s) k = occurs_at sub s (i + k)"
  by (simp add: occurs_at_def add.commute)

lemma last_index_from_spec:
  assumes "sep \<noteq> []"
  shows "if \<exists>j. occurs_at sep s j
         then \<exists>j. last_index_from sep s i found = int (i + j) \<and> occurs_at sep s j
                  \<and> (\<forall>k. occurs_at sep s k \<longrightarrow> k \<le> j)
         else last_index_from sep s i found = found"
proof (induction s arbitrary: i found)
  case Nil
  then show ?case using assms by simp
next
  case (Cons c cs)
  let ?f = "if take (length sep) (c # cs) = sep then int i else found"
  have step: "last_index_from sep (c # cs) i found = last_index_from sep cs (Suc i) ?f" by simp
  show ?case
  proof (cases "\<exists>j. occurs_at sep cs j")
    case True
    with Cons.IH[of "Suc i" ?f] obtain j where
      j: "last_index_from sep cs (Suc i) ?f = int (Suc i + j)" "occurs_at sep cs j"
         "\<forall>k. occurs_at sep cs k \<longrightarrow> k \<le> j"
      by auto
    have ex: "\<exists>j. occurs_at sep (c # cs) j" using j(2) by (intro exI[of _ "Suc j"]) simp
    have mx: "\<forall>k. occurs_at sep (c # cs) k \<longrightarrow> k \<le> Suc j"
    proof (intro allI impI)
      fix k assume "occurs_at sep (c # cs) k"
      then show "k \<le> Suc j" using j(3) by (cases k) auto
    qed
    from ex j(1,2) mx step show ?thesis
      by (auto intro!: exI[of _ "Suc j"])
  next
    case False
    with Cons.IH[of "Suc i" ?f] have r: "last_index_from sep cs (Suc i) ?f = ?f" by auto
    show ?thesis
    proof (cases "take (length sep) (c # cs) = sep")
      case T: True
      have mx: "\<forall>k. occurs_at sep (c # cs) k \<longrightarrow> k \<le> 0"
      proof (intro allI impI)
        fix k assume "occurs_at sep (c # cs) k"
        then show "k \<le> 0" using False by (cases k) auto
      qed
      have ex: "\<exists>j. occurs_at sep (c # cs) j" using T by (intro exI[of _ 0]) simp
      from T r step mx ex show ?thesis by (auto intro!: exI[of _ 0])
    next
      case F: False
      have "\<not> (\<exists>j. occurs_at sep (c # cs) j)"
      proof
        assume "\<exists>j. occurs_at sep (c # cs) j"
        then obtain j where "occurs_at sep (c # cs) j" by blast
        then show False using F False by (cases j) auto
      qed
      with F r step show ?thesis by simp
    qed
  qed
qed

lemma strings_LastIndex_spec:
  assumes "sep \<noteq> []"
  shows "if \<exists>j. occurs_at sep s j
         then \<exists>j. strings_LastIndex s sep = int j \<and> occurs_at sep s j
                  \<and> (\<forall>k. occurs_at sep s k \<longrightarrow> k \<le> j)
         else strings_LastIndex s sep = - 1"
  using last_index_from_spec[OF assms, of s 0 "- 1"]
  by (auto simp: strings_LastIndex_def split: if_splits)

lemma strings_Contains_spec:
  "sub \<noteq> [] \<Longrightarrow> strings_Contains s sub = (\<exists>k. occurs_at sub s k)"
proof (induction s)
  case Nil
  then show ?case by simp
next
  case (Cons c cs)
  show ?case
  proof
    assume "strings_Contains (c # cs) sub"
    then consider "take (length sub) (c # cs) = sub" | "strings_Contains cs sub" by auto
    then show "\<exists>k. occurs_at sub (c # cs) k"
    proof cases
      case 1
      then show ?thesis by (intro exI[of _ 0]) simp
    next
      case 2
      with Cons obtain k where "occurs_at sub cs k" by auto
      then show ?thesis by (intro exI[of _ "Suc k"]) simp
    qed
  next
    assume "\<exists>k. occurs_at sub (c # cs) k"
    then obtain k where k: "occurs_at sub (c # cs) k" by blast
    show "strings_Contains (c # cs) sub"
    proof (cases k)
      case 0
      with k show ?thesis by simp
    next
      case (Suc j)
      with k Cons show ?thesis by auto
    qed
  qed
qed

lemma occurs_at_single: "occurs_at [c] s j = (j < length s \<and> s ! j = c)"
proof (cases "j < length s")
  case True
  then have "drop j s = s ! j # drop (Suc j) s" by (simp add: Cons_nth_drop_Suc)
  then show ?thesis using True by (simp add: occurs_at_def)
next
  case False
  then show ?thesis by (simp add: occurs_at_def)
qed

lemma after_last_paren_spec:
  "drop (nat (strings_LastIndex txt '')'' + 1)) txt = after_last_paren txt"
proof (cases "\<exists>j. occurs_at '')'' txt j")
  case False
  with strings_LastIndex_spec[of "'')''" "txt"] have i: "strings_LastIndex txt '')'' = - 1" by simp
  from False have "\<forall>c \<in> set txt. c \<noteq> CHR '')''"
    by (auto simp: occurs_at_single in_set_conv_nth)
  then have tw: "takeWhile (\<lambda>c. c \<noteq> CHR '')'') (rev txt) = rev txt"
    by (intro takeWhile_eq_all_conv[THEN iffD2]) simp
  show ?thesis unfolding after_last_paren_def tw using i by simp
next
  case True
  with strings_LastIndex_spec[of "'')''" "txt"] obtain j where
    j: "strings_LastIndex txt '')'' = int j" "occurs_at '')'' txt j"
       "\<forall>k. occurs_at '')'' txt k \<longrightarrow> k \<le> j"
    by auto
  from j(2) have lt: "j < length txt" and at: "txt ! j = CHR '')''"
    by (simp_all add: occurs_at_single)
  have dec: "txt = take j txt @ CHR '')'' # drop (Suc j) txt"
    using lt at id_take_nth_drop[of j "txt"] by simp
  have none: "\<forall>c \<in> set (drop (Suc j) txt). c \<noteq> CHR '')''"
  proof
    fix c assume "c \<in> set (drop (Suc j) txt)"
    then obtain m where m: "m < length (drop (Suc j) txt)" "drop (Suc j) txt ! m = c"
      by (auto simp: in_set_conv_nth)
    show "c \<noteq> CHR '')''"
    proof
      assume "c = CHR '')''"
      with m have "occurs_at '')'' txt (Suc j + m)" by (simp add: occurs_at_single)
      with j(3) show False by auto
    qed
  qed
  have "rev txt = rev (drop (Suc j) txt) @ CHR '')'' # rev (take j txt)"
    by (subst dec) simp
  moreover have "takeWhile (\<lambda>c. c \<noteq> CHR '')'')
           (rev (drop (Suc j) txt) @ CHR '')'' # rev (take j txt)) = rev (drop (Suc j) txt)"
    using none by (subst takeWhile_append2) auto
  ultimately have tw: "takeWhile (\<lambda>c. c \<noteq> CHR '')'') (rev txt) = rev (drop (Suc j) txt)"
    by simp
  show ?thesis unfolding after_last_paren_def tw using j(1) by (simp add: nat_add_distrib)
qed

lemma lastInsertId_clause_spec: "lastInsertId_clause txt = recognized_clause txt"
proof -
  let ?s = "map upper_char (spcRpl_Replace (after_last_paren txt))"
  let ?R = "''RETURNING''" and ?M = "'' /*LASTINSERTID*/ INTO ''"
  have l: "lastInsertId_clause txt =
      (0 \<le> strings_LastIndex ?s ?R
       \<and> strings_Contains (drop (nat (strings_LastIndex ?s ?R)) ?s) ?M)"
    by (simp add: lastInsertId_clause_def Let_def after_last_paren_spec strings_ToUpper_def)
  have b: "\<And>sub j. sub \<noteq> [] \<Longrightarrow> occurs_at sub ?s j \<Longrightarrow> j \<le> length ?s"
    by (drule (1) occurs_at_bound) simp
  show ?thesis
  proof (cases "\<exists>j. occurs_at ?R ?s j")
    case False
    with strings_LastIndex_spec[of ?R ?s] have "strings_LastIndex ?s ?R = - 1" by simp
    with l False show ?thesis by (auto simp: recognized_clause_def Let_def)
  next
    case True
    with strings_LastIndex_spec[of ?R ?s] obtain i where
      i: "strings_LastIndex ?s ?R = int i" "occurs_at ?R ?s i"
         "\<forall>k. occurs_at ?R ?s k \<longrightarrow> k \<le> i"
      by auto
    have c: "strings_Contains (drop i ?s) ?M = (\<exists>k. occurs_at ?M ?s (i + k))"
      by (simp add: strings_Contains_spec occurs_at_drop)
    show ?thesis
    proof
      assume "lastInsertId_clause txt"
      with l i(1) c obtain k where k: "occurs_at ?M ?s (i + k)" by auto
      have "i \<in> {..length ?s}" using b[OF _ i(2)] by simp
      moreover have "i + k \<in> {..length ?s}" using b[OF _ k] by simp
      ultimately show "recognized_clause txt"
        unfolding recognized_clause_def Let_def
        using i(2,3) k by (intro bexI[of _ i] conjI ballI impI bexI[of _ "i + k"]) auto
    next
      assume "recognized_clause txt"
      then obtain i' k where
        r: "occurs_at ?R ?s i'" "\<forall>j \<in> {..length ?s}. occurs_at ?R ?s j \<longrightarrow> j \<le> i'"
           "i' \<le> k" "occurs_at ?M ?s k"
        unfolding recognized_clause_def Let_def by blast
      have "i' \<le> i" using i(3) r(1) by simp
      moreover have "i \<le> i'" using r(2) i(2) b[OF _ i(2)] by simp
      ultimately have "i' = i" by simp
      with r(3,4) have "occurs_at ?M ?s (i + (k - i))" by simp
      with l i(1) c show "lastInsertId_clause txt" by auto
    qed
  qed
qed

lemma clause_example:
  "lastInsertId_clause ''INSERT INTO T (A) VALUES (:1) RETURNING ID /*LASTINSERTID*/ INTO :2''"
  by code_simp

subsection \<open>Auxiliary facts about the recovery of panics\<close>

lemma panics_of_simps [simp]:
  "panics_of [] = []"
  "panics_of (x # xs) = (if go_call (fst x) then (case reply_panic (snd x) of None \<Rightarrow> panics_of xs
                            | Some v \<Rightarrow> v # panics_of xs) else panics_of xs)"
  "panics_of (xs @ ys) = panics_of xs @ panics_of ys"
  by (simp_all add: panics_of_def List.map_filter_def split: option.splits)

lemma hushed_refl [simp]: "hushed w w"
  by (simp add: hushed_def)

lemma hushed_trans: "hushed w w1 \<Longrightarrow> hushed w1 w2 \<Longrightarrow> hushed w w2"
  by (auto simp: hushed_def)

lemma hushed_ask: "\<not> go_call c \<Longrightarrow> hushed w (fst (ask P w c))"
  by (simp add: hushed_def ask_def Let_def)

lemma hushed_sound: "hushed w (world_of X) \<Longrightarrow> sound_out w X"
  by (auto simp: hushed_def sound_out_def)

lemma sound_out_Return: "sound_out w (Return w1 x) \<Longrightarrow> hushed w w1"
  by (auto simp: hushed_def sound_out_def)

lemma sound_out_trans:
  "hushed w w1 \<Longrightarrow> sound_out w1 X \<Longrightarrow> sound_out w X"
  by (auto simp: hushed_def sound_out_def)

lemma trace_set_bnd [simp]: "trace (set_bnd w a n b) = trace w"
  by (simp add: set_bnd_def)

lemma sound_call_bind: "trace w0 = trace w \<Longrightarrow> sound_step w (call_bind P w0 it c)"
  by (cases "ask P w0 c")
     (auto simp: sound_step_def call_bind_def ask_def Let_def split: option.splits)

lemma sound_call_slice_bind: "trace w0 = trace w \<Longrightarrow> sound_step w (call_slice_bind P w0 err sh c)"
  by (cases "ask P w0 c")
     (auto simp: sound_step_def call_slice_bind_def ask_def Let_def split: option.splits)

lemma sound_then_hasPtrBind: "sound_step w st \<Longrightarrow> sound_step w (then_hasPtrBind r st)"
  by (cases st) (auto simp: sound_step_def then_hasPtrBind_def)

lemma sound_then_iterations: "sound_step w st \<Longrightarrow> sound_step w (then_iterations len st)"
  by (cases st) (auto simp: sound_step_def then_iterations_def)

lemma sound_setNilBind: "sound_out w (setNilBind P w r n t)"
  by (auto simp: sound_out_def setNilBind_def ask_def Let_def split: option.splits)

lemma sound_nil_bind_ignored: "sound_step w (nil_bind_ignored P w r n it err t)"
  using sound_setNilBind[of w P r n t]
  by (cases "setNilBind P w r n t") (auto simp: sound_step_def sound_out_def nil_bind_ignored_def)

lemma sound_nil_bind_assigned: "sound_step w (nil_bind_assigned P w r n it t)"
  using sound_setNilBind[of w P r n t]
  by (cases "setNilBind P w r n t") (auto simp: sound_step_def sound_out_def nil_bind_assigned_def)

lemma sound_Panicked: "trace w1 = trace w \<Longrightarrow> sound_step w (Panicked w1 v)"
  by (simp add: sound_step_def)

lemma sound_invalid_param: "sound_step w (invalid_param w it b)"
  by (simp add: sound_step_def invalid_param_def)

lemma sound_with_cfg:
  assumes "trace w1 = trace w" and "\<And>c. sound_step w (g c)"
  shows "sound_step w (with_cfg w1 r g)"
proof (cases "Stmt_Cfg w1 r")
  case None
  then show ?thesis using assms(1) by (simp add: with_cfg_def sound_step_def)
next
  case (Some c)
  then show ?thesis using assms(2)[of c] by (simp add: with_cfg_def)
qed

lemma sound_scalar_bind: "sound_step w (scalar_bind P w a n it idx m v ex)"
  unfolding scalar_bind_def by (rule sound_call_bind) simp

lemma sound_ptr_bind: "sound_step w (ptr_bind P w r a n it idx l ex)"
  unfolding ptr_bind_def by (rule sound_then_hasPtrBind, rule sound_call_bind) simp

lemma sound_slice_bind: "sound_step w (slice_bind P w a n err idx m vs assoc sh)"
  unfolding slice_bind_def by (rule sound_call_slice_bind) simp

lemmas sound_intros = sound_scalar_bind sound_ptr_bind sound_slice_bind sound_nil_bind_ignored
  sound_nil_bind_assigned sound_invalid_param sound_then_hasPtrBind sound_then_iterations
  sound_with_cfg sound_call_bind sound_call_slice_bind sound_Panicked trace_set_bnd

lemma sound_bind_bytes: "sound_step w (bind_bytes P r a assoc n w it err vs)"
  unfolding bind_bytes_def
  by (auto intro!: sound_intros simp: Let_def split: binPoolType.splits)

lemma sound_bind_num: "sound_step w (bind_num P r a assoc n w it err p)"
  by (cases p) (auto intro!: sound_intros sound_bind_bytes simp: Let_def)

lemma sound_bind_time: "sound_step w (bind_time P r a assoc n w it err p)"
  by (cases p) (auto intro!: sound_intros simp: Let_def split: option.splits)

lemma sound_bind_text: "sound_step w (bind_text P r a assoc n w it err p)"
  by (cases p) (auto intro!: sound_intros simp: Let_def split: option.splits)

lemma sound_bind_bin: "sound_step w (bind_bin P r a assoc n w it err p)"
  by (cases p) (auto intro!: sound_intros simp: Let_def split: option.splits)

lemma sound_bind_param: "sound_step w (bind_param P r a assoc n w it err p)"
  by (cases p) (simp_all add: sound_bind_num sound_bind_time sound_bind_text sound_bind_bin)

lemma sound_bind_loop: "sound_step w (bind_loop P r a assoc n ps w it err)"
proof (induction ps arbitrary: n w it err)
  case Nil
  then show ?case by (simp add: sound_step_def)
next
  case (Cons p ps)
  note s = sound_bind_param[of w P r a assoc n it err p]
  show ?case
  proof (cases "bind_param P r a assoc n w it err p")
    case (Continue w1 it1 err1)
    with s obtain seg1 where 1: "trace w1 = trace w @ seg1" "panics_of seg1 = []"
      by (auto simp: sound_step_def)
    from Cons.IH[of w1 "Suc n" it1 err1] obtain seg2 where
      2: "trace (step_world (bind_loop P r a assoc (Suc n) ps w1 it1 err1)) = trace w1 @ seg2"
         "panics_of seg2 = [] \<or> (\<exists>v. panics_of seg2 = [v]
            \<and> bind_loop P r a assoc (Suc n) ps w1 it1 err1
                = Panicked (step_world (bind_loop P r a assoc (Suc n) ps w1 it1 err1)) v)"
      by (auto simp: sound_step_def)
    from 1 2 Continue show ?thesis
      unfolding sound_step_def by (intro exI[of _ "seg1 @ seg2"]) auto
  next
    case (ReturnNow w1 it1 err1)
    with s show ?thesis by (simp add: sound_step_def)
  next
    case (Panicked w1 v)
    with s show ?thesis by (simp add: sound_step_def)
  qed
qed

lemma local_bnds_trace: "local_bnds w r len = (w1, a) \<Longrightarrow> trace w1 = trace w"
  by (auto simp: local_bnds_def split: if_splits option.splits)

lemma sound_Stmt_bind: "sound_out w (Stmt_bind P w r params assoc)"
proof (cases "params = []")
  case True
  then show ?thesis by (simp add: Stmt_bind_def sound_out_def)
next
  case False
  obtain w1 a where l: "local_bnds w r (length params) = (w1, a)"
    by (cases "local_bnds w r (length params)")
  note t = local_bnds_trace[OF l]
  let ?st = "bind_loop P r a assoc 0 params w1 1 None"
  from sound_bind_loop[of w1 P r a assoc 0 params 1 None] t
  have s: "\<exists>seg. trace (step_world ?st) = trace w @ seg
        \<and> (panics_of seg = [] \<or> (\<exists>v. panics_of seg = [v] \<and> ?st = Panicked (step_world ?st) v))"
    by (simp add: sound_step_def)
  show ?thesis
    using False l s by (cases ?st) (auto simp: Stmt_bind_def sound_out_def)
qed

lemma trace_copy_back [simp]: "trace (copy_back w b v) = trace w"
  by (cases b) (auto simp: copy_back_def split: option.splits)

lemma sound_setPtrs_loop: "sound_out w (setPtrs_loop P w n bs)"
proof (induction P w n bs rule: setPtrs_loop.induct)
  case (1 P w n)
  then show ?case by (simp add: sound_out_def)
next
  case (2 P w n bs)
  then show ?case by (simp add: sound_out_def)
next
  case (3 P w n b bs)
  obtain w1 rp where a: "ask P w (CBndSetPtr n b) = (w1, rp)" by (cases "ask P w (CBndSetPtr n b)")
  then have w1: "w1 = w\<lparr>trace := trace w @ [(CBndSetPtr n b, rp)]\<rparr>" by (simp add: ask_world)
  show ?case
  proof (cases "reply_panic rp")
    case (Some v)
    with a w1 show ?thesis
      unfolding sound_out_def by (intro exI[of _ "[(CBndSetPtr n b, rp)]"]) simp
  next
    case None
    show ?thesis
    proof (cases "reply_err rp")
      case (Some e)
      with None a w1 show ?thesis
        unfolding sound_out_def by (intro exI[of _ "[(CBndSetPtr n b, rp)]"]) simp
    next
      case N: None
      let ?w2 = "copy_back w1 b (reply_value rp)"
      let ?Y = "setPtrs_loop P ?w2 (Suc n) bs"
      from 3[OF a[symmetric] refl None N] obtain seg where
        s: "trace (world_of ?Y) = trace ?w2 @ seg"
           "panics_of seg = [] \<or> (\<exists>v. panics_of seg = [v] \<and> ?Y = Panic (world_of ?Y) v)"
        by (auto simp: sound_out_def)
      have e: "setPtrs_loop P w n (Some b # bs) = ?Y" using a None N by simp
      from s w1 None show ?thesis
        unfolding sound_out_def e by (intro exI[of _ "(CBndSetPtr n b, rp) # seg"]) simp
    qed
  qed
qed

lemma sound_Stmt_setBindPtrs: "sound_out w (Stmt_setBindPtrs P w r)"
  unfolding Stmt_setBindPtrs_def by (rule sound_setPtrs_loop)

lemma hushed_Stmt_setAttr: "hushed w (world_of (Stmt_setAttr P w r v at))"
  by (auto simp: Stmt_setAttr_def ask_def Let_def hushed_def split: option.splits)

lemma hushed_Stmt_setPrefetchSize: "hushed w (world_of (Stmt_setPrefetchSize P w r))"
proof -
  have a: "\<And>v at. hushed w (world_of (case Stmt_setAttr P w r v at of
                   Return w1 (Some err) \<Rightarrow> Return w1 (Some (errE err))
                 | Return w1 None \<Rightarrow> Return w1 None
                 | Panic w1 v \<Rightarrow> Panic w1 v))"
    subgoal for v at
      using hushed_Stmt_setAttr[of w P r v at]
      by (cases "Stmt_setAttr P w r v at") (auto split: option.splits)
    done
  show ?thesis
    unfolding Stmt_setPrefetchSize_def
    by (auto simp: a split: option.splits)
qed

lemma hushed_Stmt_attr: "hushed w (world_of (Stmt_attr P w r at))"
  by (auto simp: Stmt_attr_def ask_def Let_def hushed_def split: option.splits)


lemma hushed_exe_executed: "hushed w (world_of (exe_executed P w r it))"
proof (cases "exe_mode w r")
  case None
  then show ?thesis by (simp add: exe_executed_def)
next
  case (Some m)
  show ?thesis
  proof (cases "stmt_ses (stmts w r)")
    case None
    with Some show ?thesis by (simp add: exe_executed_def)
  next
    case S: (Some s)
    show ?thesis
    proof (cases "Stmt_env w r")
      case None
      with Some S show ?thesis by (simp add: exe_executed_def)
    next
      case E: (Some e)
      let ?c = "CStmtExecute (ocisvcctx (sess w s)) (ocistmt (stmts w r)) it m"
      obtain w1 rp where a: "ask P w ?c = (w1, rp)" by (cases "ask P w ?c")
      have h1: "hushed w w1" using hushed_ask[of ?c w P] a by simp
      have h2: "hushed w1 (fst (ask P w1 (COciError e)))" by (rule hushed_ask) simp
      note h3 = hushed_trans[OF h1 hushed_Stmt_attr[of w1 P r OCI_ATTR_UB8_ROW_COUNT]]
      show ?thesis
        using Some S E a h1 hushed_trans[OF h1 h2] h3
        by (cases "Stmt_attr P w1 r OCI_ATTR_UB8_ROW_COUNT"; cases "ask P w1 (COciError e)")
           (auto simp: exe_executed_def Let_def split: sum.splits)
    qed
  qed
qed

lemma sound_exe_upto_rows: "sound_out w (exe_upto_rows P w r params assoc)"
proof (cases "Stmt_checkClosed w r")
  case (Some err)
  then show ?thesis by (simp add: exe_upto_rows_def sound_out_def)
next
  case None
  note open_ = None
  show ?thesis
  proof (cases "exe_params w r params")
    case (Panic w1 v)
    with exe_params_world[of w r params] have "w1 = w" by simp
    with open_ Panic show ?thesis by (simp add: exe_upto_rows_def sound_out_def)
  next
    case (Return w1 ps)
    with exe_params_world[of w r params] have w1: "w1 = w" by simp
    note sb = sound_Stmt_bind[of w P r ps assoc]
    show ?thesis
    proof (cases "Stmt_bind P w r ps assoc")
      case (Panic w2 v)
      with open_ Return w1 sb show ?thesis by (simp add: exe_upto_rows_def sound_out_def)
    next
      case R: (Return w2 x)
      obtain it eo where x: "x = (it, eo)" by (cases x)
      from sb R have h2: "hushed w w2" by (simp add: sound_out_Return)
      show ?thesis
      proof (cases eo)
        case (Some err)
        with open_ Return w1 R x h2 show ?thesis
          by (simp add: exe_upto_rows_def hushed_sound)
      next
        case None
        note h3 = hushed_trans[OF h2 hushed_Stmt_setPrefetchSize[of w2 P r]]
        show ?thesis
        proof (cases "Stmt_setPrefetchSize P w2 r")
          case (Panic w3 v)
          with open_ Return w1 R x None h3 show ?thesis
            by (simp add: exe_upto_rows_def hushed_sound)
        next
          case P: (Return w3 eo3)
          show ?thesis
          proof (cases eo3)
            case (Some err)
            with open_ Return w1 R x None P h3 show ?thesis
              by (simp add: exe_upto_rows_def hushed_sound)
          next
            case N: None
            from h3 P have "hushed w w3" by simp
            from hushed_trans[OF this hushed_exe_executed[of w3 P r it]]
            have "sound_out w (exe_executed P w3 r it)" by (rule hushed_sound)
            with open_ Return w1 R x None P N show ?thesis
              by (simp add: exe_upto_rows_def)
          qed
        qed
      qed
    qed
  qed
qed

lemma recovered_hushed: "hushed w w' \<Longrightarrow> recovered w w' err"
  by (auto simp: hushed_def recovered_def)

lemma recovered_Panic: "sound_out w (Panic w1 v) \<Longrightarrow> recovered w w1 (Some (errR v))"
  by (auto simp: sound_out_def recovered_def)

lemma recovered_trans: "hushed w w1 \<Longrightarrow> recovered w1 w2 err \<Longrightarrow> recovered w w2 err"
  by (auto simp: hushed_def recovered_def)

lemma Stmt_exe_recovered:
  "\<exists>w' res. Stmt_exe P w stmt params assoc = Return w' res \<and> recovered w w' (snd (snd res))"
proof (cases stmt)
  case None
  then show ?thesis by (simp add: Stmt_exe_def recovered_hushed)
next
  case (Some r)
  let ?w0 = "w\<lparr>mem := (mem w)(LastInsertIdLoc := IntV 0)\<rparr>"
  let ?X = "exe_upto_rows P ?w0 r params assoc"
  have h0: "hushed w ?w0" by (simp add: hushed_def)
  note s = sound_exe_upto_rows[of ?w0 P r params assoc]
  show ?thesis
  proof (cases ?X)
    case (Panic w1 v)
    with s have "recovered ?w0 w1 (Some (errR v))" by (simp add: recovered_Panic)
    from recovered_trans[OF h0 this] Some Panic show ?thesis by (simp add: Stmt_exe_def)
  next
    case (Return w1 x)
    with s have h1: "hushed ?w0 w1" by (simp add: sound_out_Return)
    note h = hushed_trans[OF h0 h1]
    show ?thesis
    proof (cases x)
      case (Inl res)
      with Some Return recovered_hushed[OF h] show ?thesis by (simp add: Stmt_exe_def)
    next
      case (Inr y)
      obtain rows hp where y: "y = (rows, hp)" by (cases y)
      show ?thesis
      proof (cases hp)
        case False
        with Some Return Inr y recovered_hushed[OF h] show ?thesis by (simp add: Stmt_exe_def)
      next
        case True
        note sp = sound_Stmt_setBindPtrs[of w1 P r]
        show ?thesis
        proof (cases "Stmt_setBindPtrs P w1 r")
          case (Panic w2 v)
          with sp have "recovered w1 w2 (Some (errR v))" by (simp add: recovered_Panic)
          from recovered_trans[OF h this] Some Return Inr y True Panic show ?thesis
            by (simp add: Stmt_exe_def)
        next
          case R: (Return w2 eo)
          with sp have "hushed w1 w2" by (simp add: sound_out_Return)
          from recovered_hushed[OF hushed_trans[OF h this]] Some Return Inr y True R show ?thesis
            by (cases eo) (simp_all add: Stmt_exe_def)
        qed
      qed
    qed
  qed
qed

lemma sound_qry_executed: "sound_out w (qry_executed P w stmt params)"
proof (cases stmt)
  case None
  then show ?thesis by (simp add: qry_executed_def sound_out_def)
next
  case (Some r)
  show ?thesis
  proof (cases "Stmt_checkClosed w r")
    case C: (Some err)
    with Some show ?thesis by (simp add: qry_executed_def sound_out_def)
  next
    case None
    note open_ = None
    note sb = sound_Stmt_bind[of w P r params False]
    show ?thesis
    proof (cases "Stmt_bind P w r params False")
      case (Panic w1 v)
      with Some open_ sb show ?thesis by (simp add: qry_executed_def sound_out_def)
    next
      case R: (Return w1 x)
      obtain it eo where x: "x = (it, eo)" by (cases x)
      from sb R have h1: "hushed w w1" by (simp add: sound_out_Return)
      show ?thesis
      proof (cases eo)
        case E: (Some err)
        with Some open_ R x h1 show ?thesis by (simp add: qry_executed_def hushed_sound)
      next
        case None
        note h2 = hushed_trans[OF h1 hushed_Stmt_setPrefetchSize[of w1 P r]]
        show ?thesis
        proof (cases "Stmt_setPrefetchSize P w1 r")
          case (Panic w2 v)
          with Some open_ R x None h2 show ?thesis by (simp add: qry_executed_def hushed_sound)
        next
          case P: (Return w2 eo2)
          from h2 P have hw2: "hushed w w2" by simp
          show ?thesis
          proof (cases eo2)
            case E2: (Some err)
            with Some open_ R x None P hw2 show ?thesis by (simp add: qry_executed_def hushed_sound)
          next
            case N2: None
            show ?thesis
            proof (cases "stmt_ses (stmts w2 r)")
              case SN: None
              with Some open_ R x None P N2 hw2 show ?thesis
                by (simp add: qry_executed_def hushed_sound)
            next
              case S: (Some s)
              show ?thesis
              proof (cases "Stmt_env w2 r")
                case EN: None
                with Some open_ R x None P N2 S hw2 show ?thesis
                  by (simp add: qry_executed_def hushed_sound)
              next
                case E: (Some e)
                let ?c = "CStmtExecute (ocisvcctx (sess w2 s)) (ocistmt (stmts w2 r)) 0 OCI_DEFAULT"
                obtain w3 rp where a: "ask P w2 ?c = (w3, rp)" by (cases "ask P w2 ?c")
                have h3: "hushed w w3" using hushed_trans[OF hw2 hushed_ask[of ?c w2 P]] a by simp
                have h4: "hushed w (fst (ask P w3 (COciError e)))"
                  by (rule hushed_trans[OF h3 hushed_ask]) simp
                note sp = sound_out_trans[OF h3 sound_Stmt_setBindPtrs[of w3 P r]]
                have q: "qry_executed P w stmt params =
                   (if reply_code rp = OCI_ERROR
                    then (let (w4, re) = ask P w3 (COciError e)
                          in Return w4 (Some (errE (reply_ociError re))))
                    else if hasPtrBind (stmts w3 r)
                    then (case Stmt_setBindPtrs P w3 r of
                            Panic w4 v \<Rightarrow> Panic w4 v
                          | Return w4 (Some err) \<Rightarrow> Return w4 (Some (errE err))
                          | Return w4 None \<Rightarrow> Return w4 None)
                    else Return w3 None)"
                  using Some open_ R x None P N2 S E a by (simp add: qry_executed_def Let_def)
                show ?thesis
                proof (cases "reply_code rp = OCI_ERROR")
                  case True
                  with q h4 show ?thesis
                    by (cases "ask P w3 (COciError e)") (simp add: hushed_sound)
                next
                  case False
                  show ?thesis
                  proof (cases "hasPtrBind (stmts w3 r)")
                    case F: False
                    with q False h3 show ?thesis by (simp add: hushed_sound)
                  next
                    case True
                    with q False sp show ?thesis
                      by (cases "Stmt_setBindPtrs P w3 r")
                         (auto simp: sound_out_def split: option.splits)
                  qed
                qed
              qed
            qed
          qed
        qed
      qed
    qed
  qed
qed

lemma Stmt_qry_recovered:
  "\<exists>w' res. Stmt_qry P w stmt params = Return w' res \<and> recovered w w' (snd res)"
proof -
  note s = sound_qry_executed[of w P stmt params]
  show ?thesis
  proof (cases "qry_executed P w stmt params")
    case (Panic w1 v)
    with s have "recovered w w1 (Some (errR v))" by (simp add: recovered_Panic)
    with Panic show ?thesis by (simp add: Stmt_qry_def)
  next
    case (Return w1 eo)
    with s have h1: "hushed w w1" by (simp add: sound_out_Return)
    show ?thesis
    proof (cases eo)
      case (Some err)
      with Return recovered_hushed[OF h1] show ?thesis by (simp add: Stmt_qry_def)
    next
      case None
      show ?thesis
      proof (cases stmt)
        case N: None
        with Return None recovered_hushed[OF h1] show ?thesis by (simp add: Stmt_qry_def)
      next
        case (Some r)
        let ?x = "rsetPool_next w1"
        let ?w2 = "w1\<lparr>rsetPool_next := Suc ?x\<rparr>"
        let ?c = "CRsetOpen ?x (ocistmt (stmts ?w2 r))"
        obtain w3 rp where a: "ask P ?w2 ?c = (w3, rp)" by (cases "ask P ?w2 ?c")
        then have w3: "w3 = ?w2\<lparr>trace := trace ?w2 @ [(?c, rp)]\<rparr>"
          using ask_world[of P ?w2 ?c w3 rp] by simp
        from h1 obtain seg1 where s1: "trace w1 = trace w @ seg1" "panics_of seg1 = []"
          by (auto simp: hushed_def)
        show ?thesis
        proof (cases "reply_panic rp")
          case P: (Some v)
          have "recovered w w3 (Some (errR v))"
            unfolding recovered_def using s1 w3 P by (intro exI[of _ "seg1 @ [(?c, rp)]"]) simp
          with Return None Some a P show ?thesis by (simp add: Stmt_qry_def Let_def)
        next
          case PN: None
          have h3: "hushed w w3"
            unfolding hushed_def using s1 w3 PN by (intro exI[of _ "seg1 @ [(?c, rp)]"]) simp
          show ?thesis
          proof (cases "reply_err rp")
            case EN: None
            have "recovered w (w3\<lparr>stmts := (stmts w3)(r := (stmts w3 r)
                                       \<lparr>openRsets := openRsets (stmts w3 r) @ [?x]\<rparr>)\<rparr>) None"
              using h3 by (auto simp: hushed_def recovered_def)
            with Return None Some a PN EN show ?thesis by (simp add: Stmt_qry_def Let_def)
          next
            case E: (Some err)
            obtain w4 rc where b: "ask P w3 (CRsetClose ?x) = (w4, rc)"
              by (cases "ask P w3 (CRsetClose ?x)")
            then have w4: "w4 = w3\<lparr>trace := trace w3 @ [(CRsetClose ?x, rc)]\<rparr>"
              by (simp add: ask_world)
            from h3 obtain seg3 where s3: "trace w3 = trace w @ seg3" "panics_of seg3 = []"
              by (auto simp: hushed_def)
            have "recovered w w4 (case reply_panic rc of Some v \<Rightarrow> Some (errR v)
                                      | None \<Rightarrow> Some (errE err))"
              unfolding recovered_def using s3 w4
              by (intro exI[of _ "seg3 @ [(CRsetClose ?x, rc)]"]) (auto split: option.splits)
            with Return None Some a PN E b show ?thesis
              by (auto simp: Stmt_qry_def Let_def split: option.splits)
          qed
        qed
      qed
    qed
  qed
qed

lemma sound_env_step:
  assumes "\<And>w1 u. sound_out w1 (k w1 u)"
  shows "sound_out w (env_step P w c k)"
proof -
  obtain w1 rp where a: "ask P w c = (w1, rp)" by (cases "ask P w c")
  then have w1: "w1 = w\<lparr>trace := trace w @ [(c, rp)]\<rparr>" by (simp add: ask_world)
  show ?thesis
  proof (cases "reply_panic rp")
    case (Some v)
    with a w1 show ?thesis
      unfolding sound_out_def env_step_def by (intro exI[of _ "[(c, rp)]"]) simp
  next
    case None
    show ?thesis
    proof (cases "reply_err rp")
      case (Some err)
      with None a w1 show ?thesis
        unfolding sound_out_def env_step_def by (intro exI[of _ "[(c, rp)]"]) simp
    next
      case N: None
      let ?Y = "k w1 (reply_value rp)"
      from assms[of w1 "reply_value rp"] obtain seg where
        s: "trace (world_of ?Y) = trace w1 @ seg"
           "panics_of seg = [] \<or> (\<exists>v. panics_of seg = [v] \<and> ?Y = Panic (world_of ?Y) v)"
        by (auto simp: sound_out_def)
      have e: "env_step P w c k = ?Y" using a None N by (simp add: env_step_def)
      from s w1 None show ?thesis
        unfolding sound_out_def e by (intro exI[of _ "(c, rp) # seg"]) simp
    qed
  qed
qed

lemma sound_OpenSes_finish: "sound_out w (OpenSes_finish w r cfg ocisvc)"
  by (simp add: OpenSes_finish_def Let_def sound_out_def)

lemma sound_OpenSes_begin: "sound_out w (OpenSes_begin P w e r cfg ocises ocisvc)"
proof -
  let ?c = "CSessionBegin e (Username cfg \<noteq> [] \<or> Password cfg \<noteq> []) (mode_flag (Mode cfg))"
  obtain w1 rp where a: "ask P w ?c = (w1, rp)" by (cases "ask P w ?c")
  have h1: "hushed w w1" using hushed_ask[of ?c w P] a by simp
  show ?thesis
  proof (cases "reply_code rp = OCI_ERROR")
    case True
    have "hushed w (fst (ask P w1 (COciError e)))"
      by (rule hushed_trans[OF h1 hushed_ask]) simp
    with True a show ?thesis
      by (cases "ask P w1 (COciError e)") (simp add: OpenSes_begin_def hushed_sound)
  next
    case False
    have "sound_out w1 (env_step P w1 (CEnvSetAttr e OCI_HTYPE_SVCCTX OCI_ATTR_SESSION ocises)
                (\<lambda>w2 u. env_step P w2
                   (CEnvSetAttr e OCI_HTYPE_SVCCTX OCI_ATTR_STMTCACHESIZE (IntV 0))
                   (\<lambda>w3 u. OpenSes_finish w3 r cfg ocisvc)))"
      by (intro sound_env_step sound_OpenSes_finish)
    from sound_out_trans[OF h1 this] False a show ?thesis
      by (simp add: OpenSes_begin_def)
  qed
qed

lemma sound_OpenSes_credentials:
  assumes "\<And>w1. sound_out w1 (k w1)"
  shows "sound_out w (OpenSes_credentials P w e cfg k)"
  unfolding OpenSes_credentials_def
  by (auto intro!: sound_env_step assms)

lemma sound_OpenSes_body: "sound_out w (OpenSes_body P w srv cfg)"
proof (cases srv)
  case None
  then show ?thesis by (simp add: OpenSes_body_def sound_out_def)
next
  case (Some r)
  show ?thesis
  proof (cases "Srv_checkClosed w srv")
    case C: (Some err)
    with Some show ?thesis by (simp add: OpenSes_body_def sound_out_def)
  next
    case None
    show ?thesis
    proof (cases "srv_env (srvs w r)")
      case E: None
      with Some None show ?thesis by (simp add: OpenSes_body_def sound_out_def)
    next
      case E: (Some e)
      with Some None show ?thesis
        by (simp add: OpenSes_body_def)
           (intro sound_env_step sound_OpenSes_credentials sound_OpenSes_begin)
    qed
  qed
qed

lemma Srv_OpenSes_recovered:
  "\<exists>w' res. Srv_OpenSes P w srv cfg = Return w' res \<and> recovered w w' (snd res)"
proof (cases "cfg = zero_SesCfg")
  case True
  then show ?thesis by (simp add: Srv_OpenSes_def recovered_hushed)
next
  case False
  note s = sound_OpenSes_body[of w P srv cfg]
  show ?thesis
  proof (cases "OpenSes_body P w srv cfg")
    case (Panic w1 v)
    with s have "recovered w w1 (Some (errR v))" by (simp add: recovered_Panic)
    with False Panic show ?thesis by (simp add: Srv_OpenSes_def)
  next
    case (Return w1 res)
    with s have "hushed w w1" by (simp add: sound_out_Return)
    from recovered_hushed[OF this] False Return show ?thesis by (simp add: Srv_OpenSes_def)
  qed
qed

subsection \<open>C1: Stmt.Close on an open statement\<close>

text \<open>
  C1. The claim: for every open Statement (session reference and native handle present),
  \<^verbatim>\<open>Stmt.Close\<close> closes it. The code: \<^verbatim>\<open>closeWithRemove\<close> returns nil at once when
  \<^verbatim>\<open>stmt.ses\<close> is not nil (the test is inverted), so on every statement that has a session
  \<^verbatim>\<open>Close\<close> returns nil and changes nothing: no cursor is released, no descriptor and no
  result set is closed, the statement stays in its session's set and stays open.
\<close>

theorem Stmt_Close_open_is_noop:
  "stmt_ses (stmts w r) = Some s \<Longrightarrow> Stmt_Close P w (Some r) = Return w None"
  by (simp add: Stmt_Close_def Stmt_closeWithRemove_def)

theorem Stmt_Close_open_is_noop_witness:
  "stmt_ses (stmts world0 0) = Some 0
   \<and> Stmt_IsOpen world0 (Some 0) = Return world0 True
   \<and> Stmt_Close quiet world0 (Some 0) = Return world0 None
   \<and> openStmts (sess world0 0) = Some [0]"
  using Stmt_Close_open_is_noop [of world0 0 0 quiet]
  by (simp add: world0_defs Stmt_IsOpen_def)

subsection \<open>C9: IsOpen on a nil receiver\<close>

text \<open>
  C9. The claim: on a nil receiver \<^verbatim>\<open>isOpen()\<close> returns false without panicking, for
  \<^verbatim>\<open>Srv.IsOpen\<close> and for \<^verbatim>\<open>Stmt.IsOpen\<close>. The code: \<^verbatim>\<open>Srv.checkClosed\<close> tests
  \<^verbatim>\<open>srv == nil\<close> first, so \<^verbatim>\<open>Srv.IsOpen\<close> returns false; \<^verbatim>\<open>Stmt.IsOpen\<close> has no such test
  and panics in \<^verbatim>\<open>stmt.RLock()\<close>.
\<close>

theorem IsOpen_nil_receiver:
  "Srv_IsOpen w None = Return w False \<and> Stmt_IsOpen w None = Panic w NilPointerDereference"
  by (simp add: Stmt_IsOpen_def Srv_IsOpen_def Srv_checkClosed_def)

subsection \<open>C2: closing twice\<close>

text \<open>
  C2, as stated, at a concrete input: the one open server of \<open>world0\<close> is closed with
  \<^verbatim>\<open>Srv.Close\<close>, which succeeds; \<^verbatim>\<open>IsOpen\<close> is then false; the second \<^verbatim>\<open>Srv.Close\<close> returns
  nil, not an already-closed error (\<^verbatim>\<open>closeWithRemove\<close> returns nil when \<^verbatim>\<open>srv.env\<close> is
  nil).
\<close>

theorem Srv_Close_twice_counterexample:
  "returned (Srv_Close quiet world0 (Some 0)) = Some None
   \<and> returned (Srv_IsOpen (world_of (Srv_Close quiet world0 (Some 0))) (Some 0)) = Some False
   \<and> returned (Srv_Close quiet (world_of (Srv_Close quiet world0 (Some 0))) (Some 0)) = Some None"
  by (simp add: world0_defs Srv_Close_def Srv_closeWithRemove_def Srv_close_def
      Srv_checkClosed_def Env_checkClosed_def Srv_close_deferred_def ask_def quiet_def Let_def
      OCI_ERROR_def newMultiErrL_def merged_def Srv_IsOpen_def)

text \<open>
  C2, amended. For every open Srv: \<^verbatim>\<open>Close()\<close> returns, \<^verbatim>\<open>IsOpen()\<close> is false afterwards, a
  second \<^verbatim>\<open>Close()\<close> returns nil and changes nothing, and a second call of the internal
  \<^verbatim>\<open>close()\<close> returns an already-closed error and changes nothing. For every open Stmt:
  after an internal \<^verbatim>\<open>close()\<close> that returns, \<^verbatim>\<open>IsOpen()\<close> is false and a second \<^verbatim>\<open>close()\<close>
  returns an already-closed error and changes nothing; the \<^verbatim>\<open>close()\<close> of an open Stmt whose
  \<^verbatim>\<open>stmt.ses.srv.env\<close> exists does return.
\<close>

theorem close_twice:
  "(Srv_checkClosed w (Some r) = None \<longrightarrow>
      (\<exists>w1 res. Srv_Close P w (Some r) = Return w1 res
          \<and> Srv_IsOpen w1 (Some r) = Return w1 False
          \<and> Srv_Close P w1 (Some r) = Return w1 None
          \<and> (\<exists>err. Srv_close P w1 r = Return w1 (Some err) \<and> is_closed_error err)))
   \<and> (ocistmt (stmts w s) \<noteq> None \<and> Stmt_close P w s = Return w2 res2 \<longrightarrow>
        Stmt_IsOpen w2 (Some s) = Return w2 False
        \<and> (\<exists>err. Stmt_close P w2 s = Return w2 (Some err) \<and> is_closed_error err))
   \<and> (ocistmt (stmts w s) \<noteq> None \<and> Stmt_env w s \<noteq> None \<longrightarrow>
        (\<exists>w3 res3. Stmt_close P w s = Return w3 res3))"
proof (intro conjI impI)
  assume o: "Srv_checkClosed w (Some r) = None"
  then obtain e where e: "srv_env (srvs w r) = Some e"
    by (auto simp: Srv_checkClosed_def Env_checkClosed_def Let_def
        split: option.splits if_splits)
  let ?w = "w\<lparr>envs := (envs w)(e := (envs w e)\<lparr>openSrvs := removeAll r (openSrvs (envs w e))\<rparr>)\<rparr>"
  have "Srv_checkClosed ?w (Some r) = None"
    using o by (simp add: Srv_checkClosed_envs)
  from Srv_close_log[OF this, of P] obtain w1 seg where
    1: "Srv_close P ?w r = Return w1 (merged (teardown_failures seg))"
    and 2: "ocisrv (srvs w1 r) = None" and 3: "srv_env (srvs w1 r) = None"
    by blast
  have "Srv_Close P w (Some r) = Return w1 (merged (teardown_failures seg))"
    using e 1 by (simp add: Srv_Close_def Srv_closeWithRemove_def)
  moreover have "Srv_IsOpen w1 (Some r) = Return w1 False"
    using 2 by (simp add: Srv_IsOpen_def Srv_checkClosed_def)
  moreover have "Srv_Close P w1 (Some r) = Return w1 None"
    using 3 by (simp add: Srv_Close_def Srv_closeWithRemove_def)
  moreover note Srv_close_closed[OF 2, of P]
  ultimately show "\<exists>w1 res. Srv_Close P w (Some r) = Return w1 res
          \<and> Srv_IsOpen w1 (Some r) = Return w1 False
          \<and> Srv_Close P w1 (Some r) = Return w1 None
          \<and> (\<exists>err. Srv_close P w1 r = Return w1 (Some err) \<and> is_closed_error err)"
    by blast
next
  assume a: "ocistmt (stmts w s) \<noteq> None \<and> Stmt_close P w s = Return w2 res2"
  then have 4: "ocistmt (stmts w2 s) = None"
    using Stmt_close_returns[of w s P w2 res2] by simp
  then show "Stmt_IsOpen w2 (Some s) = Return w2 False"
    by (simp add: Stmt_IsOpen_def)
  from Stmt_close_closed[OF 4, of P]
  show "\<exists>err. Stmt_close P w2 s = Return w2 (Some err) \<and> is_closed_error err" .
next
  assume a: "ocistmt (stmts w s) \<noteq> None \<and> Stmt_env w s \<noteq> None"
  then obtain e where e: "Stmt_env w s = Some e" by auto
  from a have o: "Stmt_checkClosed w s = None" by (simp add: Stmt_checkClosed_def)
  from Stmt_close_log[OF o e, of P] show "\<exists>w3 res3. Stmt_close P w s = Return w3 res3"
    by blast
qed

theorem close_twice_witness:
  "Srv_checkClosed world0 (Some 0) = None
   \<and> ocistmt (stmts world0 0) \<noteq> None \<and> Stmt_env world0 0 \<noteq> None
   \<and> returned (Stmt_close quiet world0 0) = Some None
   \<and> Stmt_IsOpen (world_of (Stmt_close quiet world0 0)) (Some 0)
       = Return (world_of (Stmt_close quiet world0 0)) False
   \<and> (\<exists>err. Stmt_close quiet (world_of (Stmt_close quiet world0 0)) 0
                = Return (world_of (Stmt_close quiet world0 0)) (Some err)
             \<and> is_closed_error err)
   \<and> (\<exists>w1 res. Srv_Close quiet world0 (Some 0) = Return w1 res
         \<and> Srv_IsOpen w1 (Some 0) = Return w1 False
         \<and> Srv_Close quiet w1 (Some 0) = Return w1 None
         \<and> (\<exists>err. Srv_close quiet w1 0 = Return w1 (Some err) \<and> is_closed_error err))"
proof -
  let ?X = "Stmt_close quiet world0 0"
  have a: "Srv_checkClosed world0 (Some 0) = None"
    by (simp add: world0_defs Srv_checkClosed_def Env_checkClosed_def)
  have b: "ocistmt (stmts world0 0) \<noteq> None"
    by (simp add: world0_defs)
  have e: "Stmt_env world0 0 \<noteq> None"
    by (simp add: world0_defs Stmt_env_def)
  have c: "returned ?X = Some None"
    by (simp add: world0_defs Stmt_close_def Stmt_checkClosed_def Stmt_close_deferred_def
        Stmt_env_def slice_elems_def ask_def quiet_def Let_def OCI_ERROR_def newMultiErrL_def
        merged_def)
  then have x: "?X = Return (world_of ?X) None" by (cases ?X) auto
  from close_twice [of world0 0 quiet 0 "world_of ?X" None] a b e c x show ?thesis
    by simp
qed

subsection \<open>C8: what a teardown attempts and reports\<close>




subsection \<open>C3: hasPtrBind after a bind pass\<close>

text \<open>
  C3, as stated, at a concrete input: the statement of \<open>world0\<close> is bound to one
  \<^verbatim>\<open>*int64\<close> and then rebound to one \<^verbatim>\<open>int64\<close>. Both passes succeed. After the second
  pass the only installed descriptor is the input descriptor of the \<^verbatim>\<open>int64\<close>, the
  parameter list holds no output pointer, and \<^verbatim>\<open>hasPtrBind\<close> is still true: nothing in
  \<^verbatim>\<open>Stmt.bind\<close> resets the flag.
\<close>

theorem hasPtrBind_rebind_counterexample:
  "returned (Stmt_bind quiet world0 0 [Num (PNumPtr KInt64 (Some (UserLoc 0)))] False)
     = Some (1, None)
   \<and> returned (Stmt_bind quiet
        (world_of (Stmt_bind quiet world0 0 [Num (PNumPtr KInt64 (Some (UserLoc 0)))] False)) 0
        [Num (PNum KInt64 (IntV 5))] False) = Some (1, None)
   \<and> hasPtrBind (stmts (world_of (Stmt_bind quiet
        (world_of (Stmt_bind quiet world0 0 [Num (PNumPtr KInt64 (Some (UserLoc 0)))] False)) 0
        [Num (PNum KInt64 (IntV 5))] False)) 0) = True
   \<and> slice_elems (world_of (Stmt_bind quiet
        (world_of (Stmt_bind quiet world0 0 [Num (PNumPtr KInt64 (Some (UserLoc 0)))] False)) 0
        [Num (PNum KInt64 (IntV 5))] False))
        (bnds (stmts (world_of (Stmt_bind quiet
        (world_of (Stmt_bind quiet world0 0 [Num (PNumPtr KInt64 (Some (UserLoc 0)))] False)) 0
        [Num (PNum KInt64 (IntV 5))] False)) 0))
      = [Some (Bnd (IdxNum KInt64) None)]
   \<and> sets_hasPtrBind (Num (PNum KInt64 (IntV 5))) = False"
  by (simp add: bind_eval world0_defs quiet_def)

text \<open>
  C3, amended. After every bind pass that returns no error, \<^verbatim>\<open>hasPtrBind\<close> is true if and
  only if it was true before the pass or the parameter list holds a parameter whose case of
  the type switch sets it (\<open>sets_hasPtrBind\<close>). No bind pass, whatever its outcome, sets the
  flag back to false. After a \<^verbatim>\<open>Stmt.close\<close> of the open statement that returns, the flag
  is false.
\<close>

theorem hasPtrBind_after_bind:
  "(Stmt_bind P w r params assoc = Return w' (it, None) \<longrightarrow>
      hasPtrBind (stmts w' r)
        = (hasPtrBind (stmts w r) \<or> (\<exists>p \<in> set params. sets_hasPtrBind p)))
   \<and> (hasPtrBind (stmts w r) \<longrightarrow>
        hasPtrBind (stmts (world_of (Stmt_bind P w r params assoc)) r))
   \<and> (ocistmt (stmts w r) \<noteq> None \<and> Stmt_close P w r = Return wc res \<longrightarrow>
        \<not> hasPtrBind (stmts wc r))"
proof (intro conjI impI)
  assume ok: "Stmt_bind P w r params assoc = Return w' (it, None)"
  show "hasPtrBind (stmts w' r)
        = (hasPtrBind (stmts w r) \<or> (\<exists>p \<in> set params. sets_hasPtrBind p))"
  proof (cases "params = []")
    case True
    with ok show ?thesis by (simp add: Stmt_bind_def)
  next
    case False
    from Stmt_bind_Continue[OF ok False] obtain w1 a w2 where
      l: "local_bnds w r (length params) = (w1, a)"
      and b: "bind_loop P r a assoc 0 params w1 1 None = Continue w2 it None"
      and w': "w' = w2\<lparr>stmts := (stmts w2)(r := (stmts w2 r)\<lparr>bnds := Some (a, length params)\<rparr>)\<rparr>"
      by blast
    from bind_loop_flag[OF b] local_bnds_stmts[OF l] w' show ?thesis by simp
  qed
next
  assume "hasPtrBind (stmts w r)"
  then show "hasPtrBind (stmts (world_of (Stmt_bind P w r params assoc)) r)"
    by (rule Stmt_bind_keeps_flag)
next
  assume "ocistmt (stmts w r) \<noteq> None \<and> Stmt_close P w r = Return wc res"
  then show "\<not> hasPtrBind (stmts wc r)"
    using Stmt_close_returns[of w r P wc res] by simp
qed

theorem hasPtrBind_after_bind_witness:
  "returned (Stmt_bind quiet world0 0
      [Num (PNum KInt64 (IntV 5)), Txt (PStringPtr (Some (UserLoc 1)))] False) = Some (1, None)
   \<and> hasPtrBind (stmts world0 0) = False
   \<and> hasPtrBind (stmts (world_of (Stmt_bind quiet world0 0
      [Num (PNum KInt64 (IntV 5)), Txt (PStringPtr (Some (UserLoc 1)))] False)) 0) = True
   \<and> hasPtrBind (stmts (world_of (Stmt_bind quiet (world_of (Stmt_bind quiet world0 0
      [Num (PNum KInt64 (IntV 5)), Txt (PStringPtr (Some (UserLoc 1)))] False)) 0
      [Num (PNum KInt64 (IntV 5))] False)) 0) = True
   \<and> ocistmt (stmts (world_of (Stmt_bind quiet world0 0
      [Num (PNum KInt64 (IntV 5)), Txt (PStringPtr (Some (UserLoc 1)))] False)) 0) \<noteq> None
   \<and> (\<exists>w2. Stmt_close quiet (world_of (Stmt_bind quiet world0 0
      [Num (PNum KInt64 (IntV 5)), Txt (PStringPtr (Some (UserLoc 1)))] False)) 0 = Return w2 None
         \<and> hasPtrBind (stmts w2 0) = False)"
proof -
  let ?ps = "[Num (PNum KInt64 (IntV 5)), Txt (PStringPtr (Some (UserLoc 1)))]"
  let ?W = "world_of (Stmt_bind quiet world0 0 ?ps False)"
  have a: "returned (Stmt_bind quiet world0 0 ?ps False) = Some (1, None)"
    by (simp add: bind_eval world0_defs quiet_def)
  have b: "hasPtrBind (stmts world0 0) = False"
    by (simp add: world0_defs)
  have o: "ocistmt (stmts ?W 0) \<noteq> None"
    by (simp add: bind_eval world0_defs quiet_def)
  have c: "returned (Stmt_close quiet ?W 0) = Some None"
    by (simp add: bind_eval world0_defs quiet_def Stmt_close_def Stmt_checkClosed_def
        Stmt_close_deferred_def Stmt_env_def OCI_ERROR_def newMultiErrL_def merged_def)
  note x = returned_Some [OF c]
  from hasPtrBind_after_bind [where P=quiet and w=world0 and r=0 and params="?ps" and assoc=False
      and w'="?W" and it=1]
    returned_Some [OF a] b
  have 1: "hasPtrBind (stmts ?W 0) = True" by simp
  from hasPtrBind_after_bind [where P=quiet and w="?W" and r=0
      and params="[Num (PNum KInt64 (IntV 5))]" and assoc=False
      and wc="world_of (Stmt_close quiet ?W 0)" and res=None] 1 o x
  have 2: "hasPtrBind (stmts (world_of (Stmt_bind quiet ?W 0 [Num (PNum KInt64 (IntV 5))] False)) 0) = True"
    and 3: "hasPtrBind (stmts (world_of (Stmt_close quiet ?W 0)) 0) = False"
    by simp_all
  from x 3 have "\<exists>w2. Stmt_close quiet ?W 0 = Return w2 None \<and> hasPtrBind (stmts w2 0) = False"
    by (intro exI[of _ "world_of (Stmt_close quiet ?W 0)"]) simp
  with a b o 1 2 show ?thesis by simp
qed

subsection \<open>C5: the iteration count\<close>

text \<open>
  C5, as stated, at a concrete input: two batches of different lengths, a \<^verbatim>\<open>[]bool\<close> of
  length 1 and then a \<^verbatim>\<open>[]bool\<close> of length 2. The claim gives the length of the first
  batch, 1; \<^verbatim>\<open>Stmt.bind\<close> returns 2, each batch case overwriting \<^verbatim>\<open>iterations\<close>.
\<close>

theorem iterations_first_batch_counterexample:
  "returned (Stmt_bind quiet world0 0
      [Txt (PBoolSlice (Some [BoolV True])),
       Txt (PBoolSlice (Some [BoolV True, BoolV False]))] False) = Some (2, None)
   \<and> batches (Stmt_Cfg world0 0)
      [Txt (PBoolSlice (Some [BoolV True])),
       Txt (PBoolSlice (Some [BoolV True, BoolV False]))] = [1, 2]"
  by (simp add: bind_eval world0_defs quiet_def)

text \<open>
  C5, amended. For every parameter list that \<^verbatim>\<open>Stmt.bind\<close> binds without error, the
  iteration count is 1 when the list holds no batch parameter (the empty list included),
  and otherwise the length, as a \<^verbatim>\<open>uint32\<close>, of the last batch parameter of the list; the
  binders of the batches, which are not in src/, are taken to report the batch length as
  the spec says (\<open>reports_batch_length\<close>).
\<close>

theorem iterations_last_batch:
  assumes "reports_batch_length P"
    and "Stmt_bind P w r params assoc = Return w' (it, None)"
  shows "it = (if batches (Stmt_Cfg w r) params = [] then 1
               else of_nat (last (batches (Stmt_Cfg w r) params)))"
proof (cases "params = []")
  case True
  with assms show ?thesis by (simp add: Stmt_bind_def)
next
  case False
  from Stmt_bind_Continue[OF assms(2) False] obtain w1 a w2 where
    l: "local_bnds w r (length params) = (w1, a)"
    and b: "bind_loop P r a assoc 0 params w1 1 None = Continue w2 it None"
    by blast
  from bind_loop_it[OF assms(1) b] local_bnds_stmts[OF l] show ?thesis by simp
qed

theorem iterations_last_batch_witness:
  "reports_batch_length counting
   \<and> returned (Stmt_bind counting world0 0
       [Num (PNumSlice KInt64 (Some [IntV 1, IntV 2, IntV 3])), Num (PNum KInt64 (IntV 7)),
        Txt (PStringSlice (Some [StrV ''a'', StrV ''b'']))] False) = Some (2, None)
   \<and> batches (Stmt_Cfg world0 0)
       [Num (PNumSlice KInt64 (Some [IntV 1, IntV 2, IntV 3])), Num (PNum KInt64 (IntV 7)),
        Txt (PStringSlice (Some [StrV ''a'', StrV ''b'']))] = [3, 2]
   \<and> returned (Stmt_bind counting world0 0 [] False) = Some (1, None)"
proof -
  have a: "returned (Stmt_bind counting world0 0
       [Num (PNumSlice KInt64 (Some [IntV 1, IntV 2, IntV 3])), Num (PNum KInt64 (IntV 7)),
        Txt (PStringSlice (Some [StrV ''a'', StrV ''b'']))] False) = Some (2, None)"
    by (simp add: bind_eval world0_defs counting_def)
  have b: "batches (Stmt_Cfg world0 0)
       [Num (PNumSlice KInt64 (Some [IntV 1, IntV 2, IntV 3])), Num (PNum KInt64 (IntV 7)),
        Txt (PStringSlice (Some [StrV ''a'', StrV ''b'']))] = [3, 2]"
    by (simp add: glen_def)
  have c: "returned (Stmt_bind counting world0 0 [] False) = Some (1, None)"
    by (simp add: Stmt_bind_def)
  from iterations_last_batch [OF counting_reports returned_Some [OF a]] a b c counting_reports
  show ?thesis by simp
qed

subsection \<open>C6: binding a nullable wrapper\<close>

text \<open>
  C6. The claim: binding \<^verbatim>\<open>Wrapper{IsNull:true}\<close> installs a NULL bind descriptor with the
  wire-type tag of the scalar type. The code: \<^verbatim>\<open>setNilBind\<close> stores the descriptor in
  \<^verbatim>\<open>stmt.bnds[index]\<close>, the slice the statement had before this pass, while every other
  case stores into the local \<^verbatim>\<open>bnds\<close> that \<^verbatim>\<open>Stmt.bind\<close> installs at its end. On a
  statement whose \<^verbatim>\<open>bnds\<close> is nil (as \<^verbatim>\<open>Stmt.close\<close> leaves a pooled statement), or was
  bound to fewer parameters before, the index is out of range: \<^verbatim>\<open>Stmt.bind\<close> panics, and no
  NULL bind is made (the trace stays empty, or ends with the bind of the first parameter).
  The other two parts of the claim hold by the text of the type switch: with
  \<^verbatim>\<open>IsNull:true\<close> only \<^verbatim>\<open>setNilBind\<close> runs, with the tag \<open>ora_sqlt k\<close>, and with
  \<^verbatim>\<open>IsNull:false\<close> the case does what the case of the raw value does.
\<close>

theorem null_wrapper_bind_panics:
  "panicked (Stmt_bind quiet world0 0 [Num (POra KInt64 True (IntV 0))] False)
     = Some IndexOutOfRange
   \<and> trace (world_of (Stmt_bind quiet world0 0 [Num (POra KInt64 True (IntV 0))] False)) = []
   \<and> returned (Stmt_bind quiet world0 0 [Num (PNum KInt64 (IntV 1))] False) = Some (1, None)
   \<and> panicked (Stmt_bind quiet
        (world_of (Stmt_bind quiet world0 0 [Num (PNum KInt64 (IntV 1))] False)) 0
        [Num (PNum KInt64 (IntV 1)), Num (POra KInt64 True (IntV 0))] False)
     = Some IndexOutOfRange
   \<and> bind_param P r a assoc n w it err (Num (POra k True v))
     = nil_bind_ignored P w r n it err (ora_sqlt k)
   \<and> bind_param P r a assoc n w it err (Num (POra k False v))
     = bind_param P r a assoc n w it err (Num (PNum k v))"
  by (simp add: bind_eval world0_defs quiet_def)

subsection \<open>C4: the execute mode\<close>

text \<open>
  C4, as stated, at a concrete input: a SELECT statement, auto-commit enabled, no open
  transaction. The claim gives the default mode; \<^verbatim>\<open>Stmt.exe\<close> passes
  \<^verbatim>\<open>OCI_COMMIT_ON_SUCCESS\<close> to the provider: the statement type is not consulted.
\<close>

theorem exe_mode_select_counterexample:
  "stmtType (stmts worldA 0) = OCI_STMT_SELECT
   \<and> returned (Stmt_exe quiet worldA (Some 0) [] False) = Some (0, IntV 0, None)
   \<and> execute_modes (trace (world_of (Stmt_exe quiet worldA (Some 0) [] False)))
       = [OCI_COMMIT_ON_SUCCESS]"
  by (simp add: worldA_def exe_eval bind_eval world0_defs quiet_def)

text \<open>
  C4, amended. For every call to \<^verbatim>\<open>Stmt.exe\<close> on a statement, the call returns, the
  provider's execute is called at most once, and once when no error is returned; the mode
  passed to it is commit-on-success if and only if the configuration of the statement
  enables auto-commit and its session has zero open transactions (\<open>selected_mode\<close>, read
  from the state before the call), whatever the statement kind; otherwise it is the
  default mode.
\<close>

theorem exe_mode_rule:
  "\<exists>w' res seg. Stmt_exe P w (Some r) params assoc = Return w' res
     \<and> trace w' = trace w @ seg
     \<and> (execute_modes seg = [] \<or> execute_modes seg = [selected_mode w r])
     \<and> (snd (snd res) = None \<longrightarrow> execute_modes seg = [selected_mode w r])"
proof -
  from Stmt_exe_modes[where P=P and w=w and r=r and params=params and assoc=assoc]
  obtain w' res where x: "Stmt_exe P w (Some r) params assoc = Return w' res"
    and d: "grows [] w w' \<and> snd (snd res) \<noteq> None \<or> grows [selected_mode w r] w w'"
    by blast
  from d show ?thesis
  proof
    assume "grows [] w w' \<and> snd (snd res) \<noteq> None"
    then obtain seg where "trace w' = trace w @ seg" "execute_modes seg = []"
      "snd (snd res) \<noteq> None"
      by (auto simp: grows_def)
    with x show ?thesis by (intro exI[of _ w'] exI[of _ res] exI[of _ seg]) simp
  next
    assume "grows [selected_mode w r] w w'"
    then obtain seg where "trace w' = trace w @ seg" "execute_modes seg = [selected_mode w r]"
      by (auto simp: grows_def)
    with x show ?thesis by (intro exI[of _ w'] exI[of _ res] exI[of _ seg]) simp
  qed
qed

theorem exe_mode_rule_witness:
  "selected_mode worldA 0 = OCI_COMMIT_ON_SUCCESS
   \<and> selected_mode world0 0 = OCI_DEFAULT
   \<and> returned (Stmt_exe quiet worldA (Some 0) [] False) = Some (0, IntV 0, None)
   \<and> (\<exists>w' res seg. Stmt_exe quiet worldA (Some 0) [] False = Return w' res
         \<and> trace w' = trace worldA @ seg
         \<and> (execute_modes seg = [] \<or> execute_modes seg = [OCI_COMMIT_ON_SUCCESS]))"
proof -
  have a: "selected_mode worldA 0 = OCI_COMMIT_ON_SUCCESS"
    by (simp add: selected_mode_def auto_commit_rule_def worldA_def bind_eval world0_defs)
  have b: "selected_mode world0 0 = OCI_DEFAULT"
    by (simp add: selected_mode_def auto_commit_rule_def bind_eval world0_defs)
  have c: "returned (Stmt_exe quiet worldA (Some 0) [] False) = Some (0, IntV 0, None)"
    by (simp add: worldA_def exe_eval bind_eval world0_defs quiet_def)
  from exe_mode_rule [of quiet worldA 0 "[]" False] a
  have "\<exists>w' res seg. Stmt_exe quiet worldA (Some 0) [] False = Return w' res
         \<and> trace w' = trace worldA @ seg
         \<and> (execute_modes seg = [] \<or> execute_modes seg = [OCI_COMMIT_ON_SUCCESS])"
    by auto
  with a b c show ?thesis by simp
qed

subsection \<open>C10: open and execute never propagate a panic\<close>

text \<open>
  C10. \<^verbatim>\<open>Stmt.exe\<close> (and so \<^verbatim>\<open>Exe\<close> and \<^verbatim>\<open>ExeP\<close>), \<^verbatim>\<open>Stmt.qry\<close> (and so \<^verbatim>\<open>Qry\<close>) and
  \<^verbatim>\<open>Srv.OpenSes\<close> never end in a panic, whatever the state, the arguments and the answers
  of the provider, and the deferred \<^verbatim>\<open>recover\<close> turns every panic of the body into the
  error \<^verbatim>\<open>errR(value)\<close> that the call returns: a panic of \<^verbatim>\<open>Stmt.exe\<close> up to the reading of
  the affected rows (with zero rows), a panic of its \<^verbatim>\<open>setBindPtrs\<close> (with the rows read),
  a panic of the body of \<^verbatim>\<open>Stmt.qry\<close> up to the execute, and a panic of the body of
  \<^verbatim>\<open>Srv.OpenSes\<close>. \<^verbatim>\<open>Exe\<close> and \<^verbatim>\<open>ExeP\<close> return the rows and the error of \<^verbatim>\<open>exe\<close>, \<^verbatim>\<open>Qry\<close>
  returns what \<^verbatim>\<open>qry\<close> returns. From end to end (\<open>recovered\<close>): whenever a method of a
  bind descriptor, of the result set or of the environment panics during one of these
  calls, the error the call returns is \<^verbatim>\<open>errR\<close> of the value of that panic.
\<close>

theorem open_and_execute_recover:
  "panicked (Stmt_exe P w stmt params assoc) = None
   \<and> panicked (Stmt_Exe P w stmt params) = None
   \<and> panicked (Stmt_ExeP P w stmt params) = None
   \<and> panicked (Stmt_qry P w stmt params) = None
   \<and> panicked (Stmt_Qry P w stmt params) = None
   \<and> panicked (Srv_OpenSes P w srv cfg) = None
   \<and> (exe_upto_rows P (w\<lparr>mem := (mem w)(LastInsertIdLoc := IntV 0)\<rparr>) r params assoc = Panic w1 v
        \<longrightarrow> Stmt_exe P w (Some r) params assoc
              = Return w1 (0, mem w1 LastInsertIdLoc, Some (errR v)))
   \<and> (exe_upto_rows P (w\<lparr>mem := (mem w)(LastInsertIdLoc := IntV 0)\<rparr>) r params assoc
          = Return w1 (Inr (rows, True))
        \<and> Stmt_setBindPtrs P w1 r = Panic w2 v
        \<longrightarrow> Stmt_exe P w (Some r) params assoc
              = Return w2 (rows, mem w2 LastInsertIdLoc, Some (errR v)))
   \<and> (Stmt_exe P w stmt params False = Return w1 (rows, ident, err)
        \<longrightarrow> Stmt_Exe P w stmt params = Return w1 (rows, err))
   \<and> (Stmt_exe P w stmt params True = Return w1 (rows, ident, err)
        \<longrightarrow> Stmt_ExeP P w stmt params = Return w1 (rows, err))
   \<and> (qry_executed P w stmt params = Panic w1 v
        \<longrightarrow> Stmt_qry P w stmt params = Return w1 (None, Some (errR v)))
   \<and> Stmt_Qry P w stmt params = Stmt_qry P w stmt params
   \<and> (cfg \<noteq> zero_SesCfg \<and> OpenSes_body P w srv cfg = Panic w1 v
        \<longrightarrow> Srv_OpenSes P w srv cfg = Return w1 (None, Some (errR v)))
   \<and> (\<exists>w' res. Stmt_exe P w stmt params assoc = Return w' res
          \<and> recovered w w' (snd (snd res)))
   \<and> (\<exists>w' res. Stmt_qry P w stmt params = Return w' res \<and> recovered w w' (snd res))
   \<and> (\<exists>w' res. Srv_OpenSes P w srv cfg = Return w' res \<and> recovered w w' (snd res))"
proof -
  have t: "panicked (Stmt_exe P w stmt params assoc) = None
     \<and> panicked (Stmt_Exe P w stmt params) = None
     \<and> panicked (Stmt_ExeP P w stmt params) = None
     \<and> panicked (Stmt_qry P w stmt params) = None
     \<and> panicked (Stmt_Qry P w stmt params) = None
     \<and> panicked (Srv_OpenSes P w srv cfg) = None"
    by (simp add: exe_never qry_never openses_never drop_never Stmt_Exe_def Stmt_ExeP_def
        Stmt_Qry_def)
  have e1: "exe_upto_rows P (w\<lparr>mem := (mem w)(LastInsertIdLoc := IntV 0)\<rparr>) r params assoc = Panic w1 v
        \<longrightarrow> Stmt_exe P w (Some r) params assoc
              = Return w1 (0, mem w1 LastInsertIdLoc, Some (errR v))"
    by (simp add: Stmt_exe_def)
  have e2: "exe_upto_rows P (w\<lparr>mem := (mem w)(LastInsertIdLoc := IntV 0)\<rparr>) r params assoc
          = Return w1 (Inr (rows, True))
        \<and> Stmt_setBindPtrs P w1 r = Panic w2 v
        \<longrightarrow> Stmt_exe P w (Some r) params assoc
              = Return w2 (rows, mem w2 LastInsertIdLoc, Some (errR v))"
    by (simp add: Stmt_exe_def)
  have x1: "Stmt_exe P w stmt params False = Return w1 (rows, ident, err)
        \<longrightarrow> Stmt_Exe P w stmt params = Return w1 (rows, err)"
    by (simp add: Stmt_Exe_def drop_lastInsertId_def)
  have x2: "Stmt_exe P w stmt params True = Return w1 (rows, ident, err)
        \<longrightarrow> Stmt_ExeP P w stmt params = Return w1 (rows, err)"
    by (simp add: Stmt_ExeP_def drop_lastInsertId_def)
  have q1: "qry_executed P w stmt params = Panic w1 v
        \<longrightarrow> Stmt_qry P w stmt params = Return w1 (None, Some (errR v))"
    by (simp add: Stmt_qry_def)
  have q2: "Stmt_Qry P w stmt params = Stmt_qry P w stmt params"
    by (simp add: Stmt_Qry_def)
  have o1: "cfg \<noteq> zero_SesCfg \<and> OpenSes_body P w srv cfg = Panic w1 v
        \<longrightarrow> Srv_OpenSes P w srv cfg = Return w1 (None, Some (errR v))"
    by (simp add: Srv_OpenSes_def)
  note r1 = Stmt_exe_recovered [of P w stmt params assoc]
    and r2 = Stmt_qry_recovered [of P w stmt params]
    and r3 = Srv_OpenSes_recovered [of P w srv cfg]
  from t e1 e2 x1 x2 q1 q2 o1 r1 r2 r3 show ?thesis by blast
qed

theorem open_and_execute_recover_witness:
  "panicked (exe_upto_rows quiet (world0\<lparr>mem := (mem world0)(LastInsertIdLoc := IntV 0)\<rparr>) 0
       [Num (POra KInt64 True (IntV 0))] False) = Some IndexOutOfRange
   \<and> returned (Stmt_exe quiet world0 (Some 0) [Num (POra KInt64 True (IntV 0))] False)
       = Some (0, IntV 0, Some (ErrR IndexOutOfRange))
   \<and> returned (Stmt_Exe quiet world0 (Some 0) [Num (POra KInt64 True (IntV 0))])
       = Some (0, Some (ErrR IndexOutOfRange))
   \<and> panicked (qry_executed quiet world0 None []) = Some NilPointerDereference
   \<and> returned (Stmt_qry quiet world0 None []) = Some (None, Some (ErrR NilPointerDereference))
   \<and> returned (Stmt_Qry quiet world0 None []) = Some (None, Some (ErrR NilPointerDereference))
   \<and> zero_SesCfg\<lparr>Username := ''scott''\<rparr> \<noteq> zero_SesCfg
   \<and> panicked (OpenSes_body faulty world0 (Some 0) (zero_SesCfg\<lparr>Username := ''scott''\<rparr>))
       = Some (CollaboratorPanic ''boom'')
   \<and> returned (Srv_OpenSes faulty world0 (Some 0) (zero_SesCfg\<lparr>Username := ''scott''\<rparr>))
       = Some (None, Some (ErrR (CollaboratorPanic ''boom'')))
   \<and> panics_of (trace (world_of (Stmt_exe faulty world0 (Some 0)
         [Num (PNum KInt64 (IntV 5))] False))) = [CollaboratorPanic ''boom'']
   \<and> (\<exists>w' res. Stmt_exe faulty world0 (Some 0) [Num (PNum KInt64 (IntV 5))] False
                    = Return w' res
          \<and> recovered world0 w' (snd (snd res)))
   \<and> returned (Stmt_exe faulty world0 (Some 0) [Num (PNum KInt64 (IntV 5))] False)
       = Some (0, IntV 0, Some (ErrR (CollaboratorPanic ''boom'')))"
proof -
  let ?w0 = "world0\<lparr>mem := (mem world0)(LastInsertIdLoc := IntV 0)\<rparr>"
  let ?ps = "[Num (POra KInt64 True (IntV 0))]"
  let ?cfg = "zero_SesCfg\<lparr>Username := ''scott''\<rparr>"
  let ?E = "exe_upto_rows quiet ?w0 0 ?ps False"
  let ?Q = "qry_executed quiet world0 None []"
  let ?O = "OpenSes_body faulty world0 (Some 0) ?cfg"
  have a: "panicked ?E = Some IndexOutOfRange"
    by (simp add: exe_upto_rows_def exe_params_def Stmt_checkClosed_def Stmt_env_def
        bind_eval world0_defs quiet_def)
  have m: "mem (world_of ?E) LastInsertIdLoc = IntV 0"
    by (simp add: exe_upto_rows_def exe_params_def Stmt_checkClosed_def Stmt_env_def
        bind_eval world0_defs quiet_def)
  have b: "panicked ?Q = Some NilPointerDereference"
    by (simp add: qry_executed_def)
  have c: "?cfg \<noteq> zero_SesCfg"
    by (simp add: zero_SesCfg_def)
  have d: "panicked ?O = Some (CollaboratorPanic ''boom'')"
    by (simp add: OpenSes_body_def env_step_def Srv_checkClosed_def
        Env_checkClosed_def ask_def faulty_def world0_defs Let_def)
  note t1 = open_and_execute_recover [where P=quiet and w=world0 and r=0 and params="?ps"
      and assoc=False and ?w1.0="world_of ?E" and v=IndexOutOfRange]
  from t1 panicked_Some [OF a] m
  have 1: "Stmt_exe quiet world0 (Some 0) ?ps False
             = Return (world_of ?E) (0, IntV 0, Some (errR IndexOutOfRange))"
    by simp
  note t2 = open_and_execute_recover [where P=quiet and w=world0 and stmt="Some 0"
      and params="?ps" and ?w1.0="world_of ?E" and rows=0 and ident="IntV 0"
      and err="Some (errR IndexOutOfRange)"]
  from t2 1 have 2: "Stmt_Exe quiet world0 (Some 0) ?ps
             = Return (world_of ?E) (0, Some (errR IndexOutOfRange))"
    by simp
  note t3 = open_and_execute_recover [where P=quiet and w=world0 and stmt=None
      and params="[]" and ?w1.0="world_of ?Q" and v=NilPointerDereference]
  from t3 panicked_Some [OF b]
  have 3: "Stmt_qry quiet world0 None [] = Return (world_of ?Q) (None, Some (errR NilPointerDereference))"
    and 4: "Stmt_Qry quiet world0 None [] = Stmt_qry quiet world0 None []"
    by simp_all
  note t4 = open_and_execute_recover [where P=faulty and w=world0 and srv="Some 0"
      and cfg="?cfg" and ?w1.0="world_of ?O" and v="CollaboratorPanic ''boom''"]
  from t4 c panicked_Some [OF d]
  have 5: "Srv_OpenSes faulty world0 (Some 0) ?cfg
             = Return (world_of ?O) (None, Some (errR (CollaboratorPanic ''boom'')))"
    by simp
  have f: "returned (Stmt_exe faulty world0 (Some 0) [Num (PNum KInt64 (IntV 5))] False)
             = Some (0, IntV 0, Some (ErrR (CollaboratorPanic ''boom'')))"
    by (simp add: exe_eval bind_eval world0_defs faulty_def)
  have g: "panics_of (trace (world_of (Stmt_exe faulty world0 (Some 0)
             [Num (PNum KInt64 (IntV 5))] False))) = [CollaboratorPanic ''boom'']"
    by (simp add: exe_eval bind_eval world0_defs faulty_def panics_of_def List.map_filter_def)
  from open_and_execute_recover [where P=faulty and w=world0 and stmt="Some 0"
      and params="[Num (PNum KInt64 (IntV 5))]" and assoc=False]
  have h: "\<exists>w' res. Stmt_exe faulty world0 (Some 0) [Num (PNum KInt64 (IntV 5))] False
                    = Return w' res
          \<and> recovered world0 w' (snd (snd res))"
    by blast
  from a b c d 1 2 3 4 5 f g h show ?thesis by (simp add: errR_def)
qed

subsection \<open>C7: the identity capture of an INSERT\<close>

text \<open>
  C7, as stated, at a concrete input: a prepared INSERT statement whose ASCII text ends
  with the recognized \<^verbatim>\<open>RETURNING ... /*LASTINSERTID*/ INTO\<close> clause, in an environment that
  is not the one of the database/sql package. \<^verbatim>\<open>Stmt.exe\<close> succeeds, binds the caller's
  last parameter as the plain \<^verbatim>\<open>int64\<close> it is, calls no \<^verbatim>\<open>setPtr\<close>, and returns
  \<^verbatim>\<open>lastInsertId = 0\<close>: nothing is substituted and no identity is returned.
\<close>

theorem identity_capture_counterexample:
  "stmtType (stmts (insert_world False) 0) = OCI_STMT_INSERT
   \<and> ascii (sql (stmts (insert_world False) 0))
   \<and> recognized_clause (sql (stmts (insert_world False) 0))
   \<and> returned (Stmt_exe identity_provider (insert_world False) (Some 0)
         [Num (PNum KInt64 (IntV 5)), Num (PNum KInt64 (IntV 0))] False)
       = Some (1, IntV 0, None)
   \<and> map fst (trace (world_of (Stmt_exe identity_provider (insert_world False) (Some 0)
         [Num (PNum KInt64 (IntV 5)), Num (PNum KInt64 (IntV 0))] False)))
       = [CBndBind (IdxNum KInt64) MBind 1 (IntV 5) [],
          CBndBind (IdxNum KInt64) MBind 2 (IntV 0) [],
          CStmtExecute (Some 3) (Some 4) 1 OCI_DEFAULT,
          CAttrGet (Some 4) OCI_ATTR_UB8_ROW_COUNT]"
proof -
  have a: "recognized_clause (sql (stmts (insert_world False) 0))"
    by (simp add: insert_world_def world0_defs clause_example lastInsertId_clause_spec [symmetric])
  have b: "ascii (sql (stmts (insert_world False) 0))"
    by (simp add: insert_world_def world0_defs ascii_def)
  show ?thesis
    using a b
    by (simp add: insert_world_def identity_provider_def exe_eval bind_eval world0_defs)
qed

text \<open>
  C7, amended. For every prepared INSERT statement of the package environment
  (\<^verbatim>\<open>isPkgEnv\<close>) whose text ends with a recognized clause (\<open>recognized_clause\<close>: in the text
  after the last \<^verbatim>\<open>)\<close>, taken after the replacements of \<^verbatim>\<open>spcRpl\<close> and in upper case, the last
  \<^verbatim>\<open>RETURNING\<close> is followed by \<^verbatim>\<open> /*LASTINSERTID*/ INTO \<close>), that text being ASCII: every
  call to \<^verbatim>\<open>Stmt.exe\<close> that returns no error was given at least one parameter, has bound the
  last parameter position as a \<^verbatim>\<open>*int64\<close> that points to its own \<^verbatim>\<open>lastInsertId\<close> in place
  of the caller's value, ends with the \<^verbatim>\<open>setPtr\<close> of that descriptor, and returns with the
  affected-row count the value this \<^verbatim>\<open>setPtr\<close> reported. \<^verbatim>\<open>Exe\<close> and \<^verbatim>\<open>ExeP\<close> return the
  affected-row count and the error of that call, without the identity.
\<close>

theorem identity_capture:
  assumes env: "Stmt_env w r = Some e" and pkg: "isPkgEnv (envs w e)"
    and ins: "stmtType (stmts w r) = OCI_STMT_INSERT"
    and asc: "ascii (after_last_paren (sql (stmts w r)))"
    and rc: "recognized_clause (sql (stmts w r))"
    and ok: "Stmt_exe P w (Some r) params assoc = Return w' (rows, ident, None)"
  shows "params \<noteq> []
     \<and> (\<exists>seg rb rp.
          trace w' = trace w @ seg
             @ [(CBndSetPtr (length params - 1)
                   (Bnd (IdxNumPtr KInt64) (Some LastInsertIdLoc)), rp)]
          \<and> (CBndBind (IdxNumPtr KInt64) MBind (length params)
                (PtrV (Some LastInsertIdLoc)) [], rb) \<in> set seg
          \<and> ident = reply_value rp)
     \<and> (if assoc then Stmt_ExeP P w (Some r) params else Stmt_Exe P w (Some r) params)
           = Return w' (rows, None)"
proof -
  have cl: "lastInsertId_clause (sql (stmts w r))"
    using rc by (simp add: lastInsertId_clause_spec)
  have pub: "(if assoc then Stmt_ExeP P w (Some r) params else Stmt_Exe P w (Some r) params)
           = Return w' (rows, None)"
    using ok by (cases assoc) (simp_all add: Stmt_Exe_def Stmt_ExeP_def drop_lastInsertId_def)
  let ?L = "LastInsertIdLoc"
  let ?w0 = "w\<lparr>mem := (mem w)(?L := IntV 0)\<rparr>"
  let ?b = "Bnd (IdxNumPtr KInt64) (Some ?L)"
  have env0: "Stmt_env ?w0 r = Some e"
    using env by (auto simp: Stmt_env_def split: option.splits)
  from Stmt_exe_success[OF ok] obtain w4 hp where
    u: "exe_upto_rows P ?w0 r params assoc = Return w4 (Inr (rows, hp))"
    and rest: "hp \<longrightarrow> Stmt_setBindPtrs P w4 r = Return w' None \<and> ident = mem w' ?L"
    by blast
  from exe_upto_rows_Inr[OF u] obtain ps w2 it w3 where
    p: "exe_params ?w0 r params = Return ?w0 ps"
    and b: "Stmt_bind P ?w0 r ps assoc = Return w2 (it, None)"
    and f: "Stmt_setPrefetchSize P w2 r = Return w3 None"
    and x: "exe_executed P w3 r it = Return w4 (Inr (rows, hp))"
    by blast
  from p env0 pkg ins cl have ne: "params \<noteq> []"
    by (auto simp: exe_params_def split: if_splits)
  from p env0 pkg ins cl ne have "ps = params[length params - 1 := Num (PNumPtr KInt64 (Some ?L))]"
    by (auto simp: exe_params_def)
  then have ps: "ps = butlast params @ [Num (PNumPtr KInt64 (Some ?L))]"
    using ne list_update_last[of params] by simp
  from Stmt_bind_last_ptr[OF b[unfolded ps]] obtain front seg1 rb where
    h2: "hasPtrBind (stmts w2 r)"
    and se: "slice_elems w2 (bnds (stmts w2 r)) = front @ [Some ?b]"
    and lf: "length front = length (butlast params)"
    and t2: "trace w2 = trace ?w0 @ seg1
           @ [(CBndBind (IdxNumPtr KInt64) MBind (Suc (length (butlast params))) (PtrV (Some ?L)) [], rb)]"
    by blast
  from Stmt_setPrefetchSize_keeps[OF f] obtain seg3 where
    k3: "stmts w3 = stmts w2" "arrays w3 = arrays w2" and t3: "trace w3 = trace w2 @ seg3"
    by blast
  from exe_executed_Inr[OF x] obtain seg4 where
    k4: "stmts w4 = stmts w3" "arrays w4 = arrays w3" and hp: "hp = hasPtrBind (stmts w3 r)"
    and t4: "trace w4 = trace w3 @ seg4"
    by blast
  from hp k3 h2 have hpT: hp by simp
  with rest have sp: "Stmt_setBindPtrs P w4 r = Return w' None" and id: "ident = mem w' ?L"
    by simp_all
  have "slice_elems w4 (bnds (stmts w4 r)) = front @ [Some ?b]"
    using se k3 k4 by (auto simp: slice_elems_def split: option.splits)
  with sp have "setPtrs_loop P w4 0 (front @ [Some ?b]) = Return w' None"
    by (simp add: Stmt_setBindPtrs_def)
  from setPtrs_loop_last[OF this] obtain seg5 rp where
    t5: "trace w' = trace w4 @ seg5 @ [(CBndSetPtr (0 + length front) ?b, rp)]"
    and m: "mem w' ?L = reply_value rp"
    by blast
  have len: "Suc (length (butlast params)) = length params" "length front = length params - 1"
    using ne lf by simp_all
  let ?seg = "seg1 @ [(CBndBind (IdxNumPtr KInt64) MBind (length params) (PtrV (Some ?L)) [], rb)]
                @ seg3 @ seg4 @ seg5"
  have "trace w' = trace w @ ?seg @ [(CBndSetPtr (length params - 1) ?b, rp)]"
    using t2 t3 t4 t5 len by simp
  moreover have "(CBndBind (IdxNumPtr KInt64) MBind (length params) (PtrV (Some ?L)) [], rb) \<in> set ?seg"
    by simp
  moreover have "ident = reply_value rp" using id m by simp
  ultimately have "\<exists>seg rb rp.
          trace w' = trace w @ seg
             @ [(CBndSetPtr (length params - 1) ?b, rp)]
          \<and> (CBndBind (IdxNumPtr KInt64) MBind (length params) (PtrV (Some ?L)) [], rb) \<in> set seg
          \<and> ident = reply_value rp"
    by blast
  with ne pub show ?thesis by simp
qed

theorem identity_capture_witness:
  "Stmt_env (insert_world True) 0 = Some 0
   \<and> isPkgEnv (envs (insert_world True) 0)
   \<and> stmtType (stmts (insert_world True) 0) = OCI_STMT_INSERT
   \<and> ascii (after_last_paren (sql (stmts (insert_world True) 0)))
   \<and> recognized_clause (sql (stmts (insert_world True) 0))
   \<and> returned (Stmt_exe identity_provider (insert_world True) (Some 0)
         [Num (PNum KInt64 (IntV 5)), Num (PNum KInt64 (IntV 0))] False)
       = Some (1, IntV 42, None)
   \<and> returned (Stmt_Exe identity_provider (insert_world True) (Some 0)
         [Num (PNum KInt64 (IntV 5)), Num (PNum KInt64 (IntV 0))])
       = Some (1, None)
   \<and> (\<exists>seg rb rp.
         trace (world_of (Stmt_exe identity_provider (insert_world True) (Some 0)
             [Num (PNum KInt64 (IntV 5)), Num (PNum KInt64 (IntV 0))] False))
           = trace (insert_world True) @ seg
               @ [(CBndSetPtr 1 (Bnd (IdxNumPtr KInt64) (Some LastInsertIdLoc)), rp)]
         \<and> (CBndBind (IdxNumPtr KInt64) MBind 2 (PtrV (Some LastInsertIdLoc)) [], rb) \<in> set seg
         \<and> IntV 42 = reply_value rp)"
proof -
  let ?ps = "[Num (PNum KInt64 (IntV 5)), Num (PNum KInt64 (IntV 0))]"
  let ?X = "Stmt_exe identity_provider (insert_world True) (Some 0) ?ps False"
  have e: "Stmt_env (insert_world True) 0 = Some 0"
    by (simp add: insert_world_def Stmt_env_def world0_defs)
  have p: "isPkgEnv (envs (insert_world True) 0)"
    by (simp add: insert_world_def world0_defs)
  have i: "stmtType (stmts (insert_world True) 0) = OCI_STMT_INSERT"
    by (simp add: insert_world_def world0_defs)
  have c: "lastInsertId_clause (sql (stmts (insert_world True) 0))"
    by (simp add: insert_world_def world0_defs clause_example)
  then have rc: "recognized_clause (sql (stmts (insert_world True) 0))"
    by (simp add: lastInsertId_clause_spec)
  have asc: "ascii (after_last_paren (sql (stmts (insert_world True) 0)))"
    by (simp add: insert_world_def world0_defs ascii_def after_last_paren_def)
  have r: "returned ?X = Some (1, IntV 42, None)"
    by (simp add: insert_world_def identity_provider_def exe_eval bind_eval world0_defs
        clause_example)
  then have x: "?X = Return (world_of ?X) (1, IntV 42, None)" by (rule returned_Some)
  note t = identity_capture [where w="insert_world True" and r=0 and e=0 and P=identity_provider
      and params="?ps" and assoc=False and w'="world_of ?X" and rows=1 and ident="IntV 42",
      OF e p i asc rc x]
  from t have d: "returned (Stmt_Exe identity_provider (insert_world True) (Some 0) ?ps) = Some (1, None)"
    by simp
  from t have "\<exists>seg rb rp.
         trace (world_of ?X) = trace (insert_world True) @ seg
               @ [(CBndSetPtr 1 (Bnd (IdxNumPtr KInt64) (Some LastInsertIdLoc)), rp)]
         \<and> (CBndBind (IdxNumPtr KInt64) MBind 2 (PtrV (Some LastInsertIdLoc)) [], rb) \<in> set seg
         \<and> IntV 42 = reply_value rp"
    by (simp add: numeral_2_eq_2)
  with e p i asc rc r d show ?thesis by simp
qed

end
